theory Spec2Isabelle
  imports Complex_Main "HOL-Library.AList" "HOL-Library.Char_ord" "HOL-Library.List_Lexorder" "HOL-Library.Multiset"
begin

section \<open>Python values used by the pipeline\<close>

text \<open>
  The development embeds \<^verbatim>\<open>src/pipeline_core.py\<close> (class \<^verbatim>\<open>RevenuePipeline\<close>).
  A Python \<^verbatim>\<open>str\<close> is a \<^typ>\<open>string\<close>; a \<^typ>\<open>char\<close> stands for the code point of the
  same number, so the strings of the model are the Python strings over code points 0 to 255.
  Exceptions are values of \<open>exn\<close>; a call that may raise returns \<open>exn + 'a\<close>.
\<close>

datatype exn =
  ValueError | OverflowError | TypeError | AttributeError | KeyError | IndexError
  | ZeroDivisionError | OSError | RequestException | JSONDecodeError | ParserError
  | BackendError | PipelineError string

subsection \<open>Strings: \<^verbatim>\<open>split\<close>, \<^verbatim>\<open>strip\<close>, \<^verbatim>\<open>lower\<close>, \<^verbatim>\<open>isdigit\<close>, \<^verbatim>\<open>int\<close>\<close>

text \<open>\<^verbatim>\<open>s.split(c)\<close> for a one-character separator: always at least one part.\<close>

fun split_on :: "char \<Rightarrow> string \<Rightarrow> string list" where
  "split_on c [] = [[]]"
| "split_on c (x # xs) =
     (if x = c then [] # split_on c xs
      else (case split_on c xs of [] \<Rightarrow> [[x]] | p # ps \<Rightarrow> (x # p) # ps))"

text \<open>The white space of \<^verbatim>\<open>str.strip()\<close> and \<^verbatim>\<open>int()\<close> among the code points below 256.\<close>

definition py_isspace :: "char \<Rightarrow> bool" where
  "py_isspace c \<longleftrightarrow>
     c \<in> set [CHR 0x09, CHR 0x0A, CHR 0x0B, CHR 0x0C, CHR 0x0D, CHR 0x1C, CHR 0x1D,
              CHR 0x1E, CHR 0x1F, CHR 0x20, CHR 0x85, CHR 0xA0]"

definition py_strip :: "string \<Rightarrow> string" where
  "py_strip s = rev (dropWhile py_isspace (rev (dropWhile py_isspace s)))"

text \<open>\<^verbatim>\<open>str.lower()\<close>: the capital letters below 256 are A to Z and 0xC0 to 0xDE without 0xD7.\<close>

definition py_lower_char :: "char \<Rightarrow> char" where
  "py_lower_char c =
     (let n = (of_char c :: nat)
      in if (65 \<le> n \<and> n \<le> 90) \<or> (192 \<le> n \<and> n \<le> 222 \<and> n \<noteq> 215)
         then char_of (n + 32) else c)"

definition py_lower :: "string \<Rightarrow> string" where
  "py_lower s = map py_lower_char s"

definition digit_val :: "char \<Rightarrow> nat option" where
  "digit_val c =
     map_of [(CHR ''0'', 0), (CHR ''1'', 1), (CHR ''2'', 2), (CHR ''3'', 3), (CHR ''4'', 4),
             (CHR ''5'', 5), (CHR ''6'', 6), (CHR ''7'', 7), (CHR ''8'', 8), (CHR ''9'', 9)] c"

definition is_ascii_digit :: "char \<Rightarrow> bool" where
  "is_ascii_digit c = (digit_val c \<noteq> None)"

text \<open>
  \<^verbatim>\<open>str.isdigit()\<close>: not empty and every character a digit; below 256 the superscripts
  0xB2, 0xB3 and 0xB9 count as digits too (and \<^verbatim>\<open>int()\<close> refuses them).
\<close>

definition py_isdigit :: "string \<Rightarrow> bool" where
  "py_isdigit s \<longleftrightarrow>
     s \<noteq> [] \<and> list_all (\<lambda>c. is_ascii_digit c \<or> c \<in> set [CHR 0xB2, CHR 0xB3, CHR 0xB9]) s"

fun digits_value :: "nat \<Rightarrow> string \<Rightarrow> nat" where
  "digits_value acc [] = acc"
| "digits_value acc (c # cs) = digits_value (10 * acc + (case digit_val c of None \<Rightarrow> 0 | Some d \<Rightarrow> d)) cs"

text \<open>
  \<^verbatim>\<open>int(s)\<close> in base ten: surrounding white space, one optional sign, then groups of
  decimal digits separated by single underscores. Anything else raises \<^verbatim>\<open>ValueError\<close>.
\<close>

definition py_int :: "string \<Rightarrow> exn + int" where
  "py_int s =
     (let t = py_strip s;
          (sgn, body) = (case t of
              [] \<Rightarrow> (1, [])
            | c # r \<Rightarrow> if c = CHR ''-'' then (- 1, r) else if c = CHR ''+'' then (1, r) else (1, t));
          groups = split_on CHR ''_'' body
      in if list_all (\<lambda>g. g \<noteq> [] \<and> list_all is_ascii_digit g) groups
         then Inr (sgn * int (digits_value 0 (concat groups)))
         else Inl ValueError)"

subsection \<open>Calendar dates: \<^verbatim>\<open>datetime\<close> and \<^verbatim>\<open>timedelta\<close>\<close>

text \<open>
  The pipeline builds \<^verbatim>\<open>datetime(year, month, day)\<close> at midnight and adds whole days, so a
  \<^verbatim>\<open>datetime\<close> is modelled by its calendar date. The proleptic Gregorian calendar of the
  \<^verbatim>\<open>datetime\<close> module: years 1 to 9999, ordinal 1 is 0001-01-01.
\<close>

record pydate =
  year :: int
  month :: int
  day :: int

definition is_leap :: "int \<Rightarrow> bool" where
  "is_leap y \<longleftrightarrow> y mod 4 = 0 \<and> (y mod 400 = 0 \<or> y mod 100 \<noteq> 0)"

definition days_in_month :: "int \<Rightarrow> int \<Rightarrow> int" where
  "days_in_month y m =
     (if m = 2 then (if is_leap y then 29 else 28)
      else if m = 4 \<or> m = 6 \<or> m = 9 \<or> m = 11 then 30 else 31)"

definition days_before_year :: "int \<Rightarrow> int" where
  "days_before_year y = (y - 1) * 365 + (y - 1) div 4 - (y - 1) div 100 + (y - 1) div 400"

definition days_before_month :: "int \<Rightarrow> int \<Rightarrow> int" where
  "days_before_month y m =
     [0, 31, 59, 90, 120, 151, 181, 212, 243, 273, 304, 334] ! nat (m - 1)
       + (if 2 < m \<and> is_leap y then 1 else 0)"

definition toordinal :: "pydate \<Rightarrow> int" where
  "toordinal d = days_before_year (year d) + days_before_month (year d) (month d) + day d"

definition valid_date :: "pydate \<Rightarrow> bool" where
  "valid_date d \<longleftrightarrow>
     1 \<le> month d \<and> month d \<le> 12 \<and> 1 \<le> day d \<and> day d \<le> days_in_month (year d) (month d)"

text \<open>The constructor \<^verbatim>\<open>datetime(y, m, d)\<close> raises \<^verbatim>\<open>ValueError\<close> outside the calendar.\<close>

definition mk_datetime :: "int \<Rightarrow> int \<Rightarrow> int \<Rightarrow> exn + pydate" where
  "mk_datetime y m d =
     (if 1 \<le> y \<and> y \<le> 9999 \<and> 1 \<le> m \<and> m \<le> 12 \<and> 1 \<le> d \<and> d \<le> days_in_month y m
      then Inr \<lparr>year = y, month = m, day = d\<rparr> else Inl ValueError)"

definition tomorrow :: "pydate \<Rightarrow> pydate" where
  "tomorrow d =
     (if day d < days_in_month (year d) (month d) then d\<lparr>day := day d + 1\<rparr>
      else if month d < 12 then d\<lparr>month := month d + 1, day := 1\<rparr>
      else \<lparr>year = year d + 1, month = 1, day = 1\<rparr>)"

definition yesterday :: "pydate \<Rightarrow> pydate" where
  "yesterday d =
     (if 1 < day d then d\<lparr>day := day d - 1\<rparr>
      else if 1 < month d
        then d\<lparr>month := month d - 1, day := days_in_month (year d) (month d - 1)\<rparr>
      else \<lparr>year = year d - 1, month = 12, day = 31\<rparr>)"

definition shift_days :: "pydate \<Rightarrow> int \<Rightarrow> pydate" where
  "shift_days d k = (if 0 \<le> k then (tomorrow ^^ nat k) d else (yesterday ^^ nat (- k)) d)"

text \<open>\<^verbatim>\<open>timedelta(days=k)\<close> raises \<^verbatim>\<open>OverflowError\<close> beyond 999999999 days.\<close>

definition timedelta :: "int \<Rightarrow> exn + int" where
  "timedelta k = (if \<bar>k\<bar> \<le> 999999999 then Inr k else Inl OverflowError)"

text \<open>\<^verbatim>\<open>date + timedelta\<close> raises \<^verbatim>\<open>OverflowError\<close> when the result leaves years 1 to 9999.\<close>

definition datetime_add :: "pydate \<Rightarrow> int \<Rightarrow> exn + pydate" where
  "datetime_add d k =
     (let e = shift_days d k
      in if 1 \<le> year e \<and> year e \<le> 9999 then Inr e else Inl OverflowError)"

definition digit_char :: "nat \<Rightarrow> char" where
  "digit_char n = char_of (48 + n mod 10)"

definition zero_pad4 :: "nat \<Rightarrow> string" where
  "zero_pad4 n = map digit_char [n div 1000, n div 100, n div 10, n]"

definition zero_pad2 :: "nat \<Rightarrow> string" where
  "zero_pad2 n = map digit_char [n div 10, n]"

text \<open>\<^verbatim>\<open>strftime("%Y-%m-%d")\<close>, the year written with four digits.\<close>

definition strftime_ymd :: "pydate \<Rightarrow> string" where
  "strftime_ymd d =
     zero_pad4 (nat (year d)) @ ''-'' @ zero_pad2 (nat (month d)) @ ''-'' @ zero_pad2 (nat (day d))"

section \<open>Configuration, collaborators and the state of a run\<close>

text \<open>
  \<^verbatim>\<open>PipelineConfig\<close>. The credential fields are left out: only the client constructor
  reads them.
\<close>

record config =
  main_folder :: string
  output_folder :: string
  window_size :: int
  batch_size :: int
  chunk_size :: int
  fallback_rate :: real
  use_live_rates :: bool
  pack_types :: "string list"

text \<open>The defaults of \<^verbatim>\<open>PipelineConfig\<close>, with \<^verbatim>\<open>__post_init__\<close>'s pack catalogue.\<close>

definition default_config :: "string \<Rightarrow> string \<Rightarrow> config" where
  "default_config main out =
     \<lparr>main_folder = main, output_folder = out, window_size = 3, batch_size = 50000,
      chunk_size = 1000, fallback_rate = 86191 / 1000, use_live_rates = True,
      pack_types =
        [''premium_packs_with_ad_ids.csv'', ''career_packs_with_ad_ids.csv'',
         ''event_packs_with_ad_ids.csv'', ''micro_packs_with_ad_ids.csv'',
         ''npl_packs_with_ad_ids.csv'', ''stage1_top_25k_with_ad_ids.csv'']\<rparr>"

text \<open>The parsed body of a rate-service response, as \<^verbatim>\<open>response.json()\<close> returns it.\<close>

datatype json =
  JNull | JBool bool | JNum real | JStr string | JArr "json list" | JObj "(string \<times> json) list"

record http_response =
  status_code :: int
  json_body :: "exn + json"

text \<open>One backend call: the date range, the rate and the identifiers of the SQL text.\<close>

record bq_query =
  q_start :: string
  q_end :: string
  q_rate :: real
  q_ids :: "string list"

record bq_row =
  event_date :: string
  product_id :: string
  product_value :: real
  product_value_INR :: real
  user_pseudo_id :: string

datatype pyval = PStr string | PNum real

type_synonym cohort_result = "(string \<times> pyval) list"

text \<open>
  The collaborators of a run. Each is a function of its arguments: the file system, the rate
  service and the query backend answer the same question the same way during one run.
  \<^item> \<open>current_year\<close>: \<^verbatim>\<open>datetime.now().year\<close>;
  \<^item> \<open>path_exists\<close>: \<^verbatim>\<open>os.path.exists\<close>;
  \<^item> \<open>read_csv\<close>: the column \<^verbatim>\<open>user_pseudo_id\<close> of \<^verbatim>\<open>pd.read_csv\<close>, a missing value
    \<open>None\<close>, any other cell the string \<^verbatim>\<open>astype(str)\<close> gives;
  \<^item> \<open>iterdir\<close>: the names of the sub-directories of a folder, in listing order;
  \<^item> \<open>http_get\<close>: \<^verbatim>\<open>requests.get\<close>; \<open>client_ok\<close>: whether \<^verbatim>\<open>bigquery.Client\<close> is built;
  \<^item> \<open>run_bq\<close>: \<^verbatim>\<open>client.query(q).to_dataframe()\<close>;
  \<^item> \<open>to_csv_ok\<close>, \<open>to_excel_ok\<close>: whether writing the file at a path succeeds;
  \<^item> \<open>as_completed\<close>: the order in which the pack workers of one window complete.
\<close>

record env =
  current_year :: int
  path_exists :: "string \<Rightarrow> bool"
  read_csv :: "string \<Rightarrow> exn + string option list"
  iterdir :: "string \<Rightarrow> exn + string list"
  http_get :: "string \<Rightarrow> exn + http_response"
  client_ok :: bool
  run_bq :: "bq_query \<Rightarrow> exn + bq_row list"
  to_csv_ok :: "string \<Rightarrow> bool"
  to_excel_ok :: "string \<Rightarrow> bool"
  as_completed :: "(string \<times> (exn + real)) list \<Rightarrow> (string \<times> (exn + real)) list"

text \<open>
  The mutable state: the fields of \<^verbatim>\<open>RevenuePipeline\<close> and of the session
  (\<open>logs\<close>, \<open>pipeline_status\<close>), the two memo tables, and one trace per kind of effect,
  in call order: files read, rate-service calls, backend calls, directories made, files
  written, the windows handed to \<^verbatim>\<open>process_cohort_group\<close>, and what each pack worker
  returned or raised (\<^verbatim>\<open>future.result()\<close>).
\<close>

record world =
  logs :: "(string \<times> string) list"
  pipeline_status :: "(int \<times> int \<times> real) option"
  has_client :: bool
  user_cache :: "string list \<rightharpoonup> string list"
  rate_cache :: "((string \<times> string) \<times> real) list"
  total_cohorts :: int
  processed_cohorts :: int
  csv_reads :: "string list"
  http_calls :: "string list"
  bq_calls :: "bq_query list"
  dirs_made :: "string list"
  csv_written :: "(string \<times> bq_row list) list"
  excel_written :: "(string \<times> string list \<times> pyval option list list) list"
  cohort_calls :: "string list list"
  worker_outcomes :: "(string \<times> (exn + real)) list"

text \<open>A new \<^verbatim>\<open>RevenuePipeline\<close> in a new session.\<close>

definition new_world :: world where
  "new_world =
     \<lparr>logs = [], pipeline_status = None, has_client = False, user_cache = Map.empty,
      rate_cache = [], total_cohorts = 0, processed_cohorts = 0, csv_reads = [],
      http_calls = [], bq_calls = [], dirs_made = [], csv_written = [], excel_written = [],
      cohort_calls = [], worker_outcomes = []\<rparr>"

text \<open>
  \<^verbatim>\<open>add_log\<close>: an entry is the level and the constant text of the message (time stamp and
  interpolated values are left out); the session keeps the last 100 entries.
\<close>

definition add_log :: "string \<Rightarrow> string \<Rightarrow> world \<Rightarrow> world" where
  "add_log level message st =
     (let ls = logs st @ [(level, message)]
      in st\<lparr>logs := (if 100 < length ls then drop (length ls - 100) ls else ls)\<rparr>)"

text \<open>\<^verbatim>\<open>update_progress\<close>; the elapsed time is left out.\<close>

definition update_progress :: "int \<Rightarrow> int \<Rightarrow> real \<Rightarrow> world \<Rightarrow> world" where
  "update_progress n_done n_total revenue st =
     st\<lparr>pipeline_status := Some (n_done, n_total, revenue)\<rparr>"

section \<open>Cohort Resolver: \<^verbatim>\<open>get_date_range\<close>\<close>

definition month_map :: "string \<Rightarrow> int option" where
  "month_map =
     map_of [(''january'', 1), (''jan'', 1), (''february'', 2), (''feb'', 2), (''march'', 3),
             (''mar'', 3), (''april'', 4), (''apr'', 4), (''may'', 5), (''june'', 6),
             (''jun'', 6), (''july'', 7), (''jul'', 7), (''august'', 8), (''aug'', 8),
             (''september'', 9), (''sep'', 9), (''october'', 10), (''oct'', 10),
             (''november'', 11), (''nov'', 11), (''december'', 12), (''dec'', 12)]"

text \<open>
  The body of the \<^verbatim>\<open>try\<close> block, up to the two \<^verbatim>\<open>datetime\<close> values. Every exception
  the block can raise is a \<open>Inl\<close>: the explicit \<^verbatim>\<open>ValueError\<close>s (part count, unknown
  month), the one of \<^verbatim>\<open>int()\<close>, the one of the \<^verbatim>\<open>datetime\<close> constructor, and the
  \<^verbatim>\<open>OverflowError\<close>s of \<^verbatim>\<open>timedelta\<close> and of the addition.
\<close>

definition date_range_try :: "int \<Rightarrow> int \<Rightarrow> string \<Rightarrow> exn + (pydate \<times> pydate)" where
  "date_range_try wsize cur_year cohort_name =
     (let parts = split_on CHR ''_'' cohort_name
      in if length parts \<noteq> 2 then Inl ValueError
         else case py_int (parts ! 0) of
           Inl e \<Rightarrow> Inl e
         | Inr dy \<Rightarrow>
            (case month_map (py_lower (parts ! 1)) of
               None \<Rightarrow> Inl ValueError
             | Some mth \<Rightarrow>
                (case mk_datetime cur_year mth dy of
                   Inl e \<Rightarrow> Inl e
                 | Inr start_date \<Rightarrow>
                    (case timedelta (wsize - 1) of
                       Inl e \<Rightarrow> Inl e
                     | Inr k \<Rightarrow>
                        (case datetime_add start_date k of
                           Inl e \<Rightarrow> Inl e
                         | Inr end_date \<Rightarrow> Inr (start_date, end_date))))))"

text \<open>
  \<^verbatim>\<open>get_date_range\<close>: the \<^verbatim>\<open>try\<close> block with its \<^verbatim>\<open>except Exception\<close> handler. The
  result is the pair the method returns, \<open>None\<close> for Python's \<^verbatim>\<open>None\<close>.
\<close>

definition get_date_range ::
  "config \<Rightarrow> env \<Rightarrow> string \<Rightarrow> world \<Rightarrow> (string option \<times> string option) \<times> world" where
  "get_date_range cfg ev cohort_name st =
     (case date_range_try (window_size cfg) (current_year ev) cohort_name of
        Inr (start_date, end_date) \<Rightarrow>
          ((Some (strftime_ymd start_date), Some (strftime_ymd end_date)),
           add_log ''INFO'' ''Date range for cohort'' st)
      | Inl e \<Rightarrow> ((None, None), add_log ''ERROR'' ''Error parsing cohort name'' st))"

section \<open>Identifier Extractor: \<^verbatim>\<open>extract_unique_user_ids\<close>\<close>

text \<open>
  \<^verbatim>\<open>df['user_pseudo_id'].dropna().astype(str).str.strip()\<close> followed by the filter
  \<^verbatim>\<open>valid_ids != ''\<close>.
\<close>

definition valid_ids :: "string option list \<Rightarrow> string list" where
  "valid_ids cells = filter (\<lambda>s. s \<noteq> []) (map py_strip [s. Some s \<leftarrow> cells])"

text \<open>
  The loop over \<^verbatim>\<open>csv_paths\<close>. The Python \<^verbatim>\<open>set\<close> is a list without repetition and
  \<^verbatim>\<open>set.update\<close> is \<^const>\<open>List.union\<close>; the order in which Python enumerates a set is
  not specified, and no statement below depends on the order chosen here. A file that exists
  is read (and recorded in \<open>csv_reads\<close>) whether or not the read succeeds.
\<close>

fun read_sources ::
  "env \<Rightarrow> string list \<Rightarrow> string list \<times> nat \<times> world \<Rightarrow> string list \<times> nat \<times> world" where
  "read_sources ev [] acc = acc"
| "read_sources ev (csv_path # rest) (user_ids, processed_files, st) =
     (if \<not> path_exists ev csv_path
      then read_sources ev rest
             (user_ids, processed_files, add_log ''WARNING'' ''CSV file not found'' st)
      else
        (let st1 = st\<lparr>csv_reads := csv_reads st @ [csv_path]\<rparr>
         in case read_csv ev csv_path of
              Inl e \<Rightarrow>
                read_sources ev rest
                  (user_ids, processed_files, add_log ''ERROR'' ''Error processing file'' st1)
            | Inr cells \<Rightarrow>
                read_sources ev rest
                  (List.union (valid_ids cells) user_ids, processed_files + 1,
                   add_log ''INFO'' ''Processed rows'' st1)))"

definition extract_unique_user_ids :: "env \<Rightarrow> string list \<Rightarrow> world \<Rightarrow> string list \<times> world" where
  "extract_unique_user_ids ev csv_paths st =
     (let key = sort csv_paths
      in case user_cache st key of
           Some cached \<Rightarrow> (cached, st)
         | None \<Rightarrow>
            (let (user_ids, processed_files, st1) = read_sources ev csv_paths ([], 0, st);
                 ids = filter (\<lambda>uid. uid \<noteq> [] \<and> py_strip uid \<noteq> []) user_ids;
                 st2 = st1\<lparr>user_cache := (user_cache st1)(key \<mapsto> ids)\<rparr>
             in (ids, add_log ''INFO'' ''Extracted unique user IDs'' st2)))"

section \<open>Exchange Rate Resolver: \<^verbatim>\<open>get_exchange_rate\<close>\<close>

text \<open>\<^verbatim>\<open>p in s\<close> for two strings.\<close>

fun str_contains :: "string \<Rightarrow> string \<Rightarrow> bool" where
  "str_contains p [] = (p = [])"
| "str_contains p (c # cs) = (take (length p) (c # cs) = p \<or> str_contains p cs)"

text \<open>\<^verbatim>\<open>data.get("rates", {})\<close>: only a dictionary has \<^verbatim>\<open>get\<close>.\<close>

definition get_rates :: "json \<Rightarrow> exn + json" where
  "get_rates data =
     (case data of
        JObj kvs \<Rightarrow> Inr (case map_of kvs ''rates'' of None \<Rightarrow> JObj [] | Some v \<Rightarrow> v)
      | _ \<Rightarrow> Inl AttributeError)"

text \<open>\<^verbatim>\<open>rates.values()\<close>.\<close>

definition dict_values :: "json \<Rightarrow> exn + json list" where
  "dict_values rates = (case rates of JObj kvs \<Rightarrow> Inr (map snd kvs) | _ \<Rightarrow> Inl AttributeError)"

text \<open>
  One step of \<^verbatim>\<open>[rate["INR"] for rate in rates.values() if "INR" in rate]\<close>: the value
  kept, \<open>None\<close> when the entry is skipped, or the \<^verbatim>\<open>TypeError\<close> of a test or a
  subscript the value does not support.
\<close>

definition inr_of_rate :: "json \<Rightarrow> exn + json option" where
  "inr_of_rate rate =
     (case rate of
        JObj kvs \<Rightarrow> Inr (map_of kvs ''INR'')
      | JStr s \<Rightarrow> if str_contains ''INR'' s then Inl TypeError else Inr None
      | JArr xs \<Rightarrow> if JStr ''INR'' \<in> set xs then Inl TypeError else Inr None
      | _ \<Rightarrow> Inl TypeError)"

fun inr_values :: "json list \<Rightarrow> exn + json list" where
  "inr_values [] = Inr []"
| "inr_values (rate # rest) =
     (case inr_of_rate rate of
        Inl e \<Rightarrow> Inl e
      | Inr v \<Rightarrow>
         (case inr_values rest of
            Inl e \<Rightarrow> Inl e
          | Inr vs \<Rightarrow> Inr (case v of None \<Rightarrow> vs | Some x \<Rightarrow> x # vs)))"

text \<open>The numbers \<^verbatim>\<open>sum\<close> accepts: \<^verbatim>\<open>int\<close>, \<^verbatim>\<open>float\<close> and \<^verbatim>\<open>bool\<close>.\<close>

definition json_number :: "json \<Rightarrow> real option" where
  "json_number v =
     (case v of JNum r \<Rightarrow> Some r | JBool b \<Rightarrow> Some (if b then 1 else 0) | _ \<Rightarrow> None)"

fun py_sum :: "json list \<Rightarrow> real \<Rightarrow> exn + real" where
  "py_sum [] acc = Inr acc"
| "py_sum (v # vs) acc =
     (case json_number v of None \<Rightarrow> Inl TypeError | Some r \<Rightarrow> py_sum vs (acc + r))"

text \<open>
  What the \<^verbatim>\<open>try\<close> block does with the answer of \<^verbatim>\<open>requests.get\<close>: \<open>Inl\<close> is an
  exception (handled by the \<^verbatim>\<open>except\<close> clause), \<open>Inr (Inl w)\<close> one of the two early returns of
  the fallback rate with the warning \<open>w\<close>, \<open>Inr (Inr r)\<close> the average. Numbers are real
  numbers; the rounding of floating point is not modelled.
\<close>

definition live_rate :: "exn + http_response \<Rightarrow> exn + (string + real)" where
  "live_rate answer =
     (case answer of
        Inl e \<Rightarrow> Inl e
      | Inr response \<Rightarrow>
          if status_code response \<noteq> 200 then Inr (Inl ''Exchange rate API error'')
          else case json_body response of
            Inl e \<Rightarrow> Inl e
          | Inr data \<Rightarrow>
             (case get_rates data of
                Inl e \<Rightarrow> Inl e
              | Inr rates \<Rightarrow>
                 (case dict_values rates of
                    Inl e \<Rightarrow> Inl e
                  | Inr rs \<Rightarrow>
                     (case inr_values rs of
                        Inl e \<Rightarrow> Inl e
                      | Inr vals \<Rightarrow>
                          if vals = [] then Inr (Inl ''No INR exchange rate data found'')
                          else case py_sum vals 0 of
                            Inl e \<Rightarrow> Inl e
                          | Inr s \<Rightarrow> Inr (Inr (s / real (length vals)))))))"

definition rate_url :: "string \<Rightarrow> string \<Rightarrow> string" where
  "rate_url start_date end_date = ''https://api.frankfurter.app/'' @ start_date @ ''..'' @ end_date"

text \<open>The method without its \<^verbatim>\<open>lru_cache\<close> decorator.\<close>

definition exchange_rate_body ::
  "config \<Rightarrow> env \<Rightarrow> string \<Rightarrow> string \<Rightarrow> world \<Rightarrow> real \<times> world" where
  "exchange_rate_body cfg ev start_date end_date st =
     (if \<not> use_live_rates cfg
      then (fallback_rate cfg, add_log ''INFO'' ''Using fallback exchange rate'' st)
      else
        (let url = rate_url start_date end_date;
             st1 = st\<lparr>http_calls := http_calls st @ [url]\<rparr>
         in case live_rate (http_get ev url) of
              Inl e \<Rightarrow> (fallback_rate cfg, add_log ''ERROR'' ''Error fetching exchange rate'' st1)
            | Inr (Inl warning) \<Rightarrow> (fallback_rate cfg, add_log ''WARNING'' warning st1)
            | Inr (Inr avg_rate) \<Rightarrow> (avg_rate, add_log ''INFO'' ''Average USD to INR rate'' st1)))"

text \<open>
  \<^verbatim>\<open>@lru_cache(maxsize=32)\<close>: the table is kept most recently used first; a hit returns
  the stored rate without running the body, a miss runs it, stores the result and drops the
  least recently used entry beyond 32.
\<close>

definition get_exchange_rate ::
  "config \<Rightarrow> env \<Rightarrow> string \<Rightarrow> string \<Rightarrow> world \<Rightarrow> real \<times> world" where
  "get_exchange_rate cfg ev start_date end_date st =
     (case map_of (rate_cache st) (start_date, end_date) of
        Some r \<Rightarrow>
          (r, st\<lparr>rate_cache :=
                  ((start_date, end_date), r)
                    # filter (\<lambda>kv. fst kv \<noteq> (start_date, end_date)) (rate_cache st)\<rparr>)
      | None \<Rightarrow>
          (let (r, st1) = exchange_rate_body cfg ev start_date end_date st
           in (r, st1\<lparr>rate_cache := take 32 (((start_date, end_date), r) # rate_cache st1)\<rparr>)))"

section \<open>Query Batcher: \<^verbatim>\<open>run_query\<close>\<close>

text \<open>\<^verbatim>\<open>range(0, n, step)\<close> for a positive step: the multiples of the step below \<open>n\<close>.\<close>

definition py_range_step :: "nat \<Rightarrow> nat \<Rightarrow> nat list" where
  "py_range_step n step = map (\<lambda>k. k * step) [0..<(n + step - 1) div step]"

text \<open>
  \<^verbatim>\<open>[xs[i:i + step] for i in range(0, len(xs), step)]\<close>, the list of slices the three
  chunking loops walk through: \<^verbatim>\<open>range\<close> raises \<^verbatim>\<open>ValueError\<close> for step 0 and is empty
  for a negative step.
\<close>

definition slice_list :: "nat \<Rightarrow> 'a list \<Rightarrow> 'a list list" where
  "slice_list step xs = map (\<lambda>i. take step (drop i xs)) (py_range_step (length xs) step)"

definition slices :: "int \<Rightarrow> 'a list \<Rightarrow> exn + 'a list list" where
  "slices step xs =
     (if step = 0 then Inl ValueError
      else if step < 0 then Inr []
      else Inr (slice_list (nat step) xs))"

text \<open>
  The loop over the chunks. The SQL text is represented by its parameters. A call on a
  pipeline without client raises \<^verbatim>\<open>AttributeError\<close> inside the \<^verbatim>\<open>try\<close> block; a
  backend call is recorded in \<open>bq_calls\<close> when it is issued.
\<close>

fun query_chunks ::
  "env \<Rightarrow> string \<Rightarrow> string \<Rightarrow> real \<Rightarrow> string list list \<Rightarrow> bq_row list list \<times> world
     \<Rightarrow> bq_row list list \<times> world" where
  "query_chunks ev start_date end_date avg_rate [] acc = acc"
| "query_chunks ev start_date end_date avg_rate (chunk # rest) (all_results, st) =
     (let query = \<lparr>q_start = start_date, q_end = end_date, q_rate = avg_rate, q_ids = chunk\<rparr>;
          st1 = add_log ''INFO'' ''Running query chunk'' st
      in if \<not> has_client st1
         then query_chunks ev start_date end_date avg_rate rest
                (all_results, add_log ''ERROR'' ''Error in query chunk'' st1)
         else
           (let st2 = st1\<lparr>bq_calls := bq_calls st1 @ [query]\<rparr>
            in case run_bq ev query of
                 Inl e \<Rightarrow>
                   query_chunks ev start_date end_date avg_rate rest
                     (all_results, add_log ''ERROR'' ''Error in query chunk'' st2)
               | Inr chunk_df \<Rightarrow>
                   query_chunks ev start_date end_date avg_rate rest
                     (if chunk_df \<noteq> [] then all_results @ [chunk_df] else all_results, st2)))"

text \<open>A data frame is the list of its rows; \<^verbatim>\<open>pd.DataFrame()\<close> is the empty list.\<close>

definition run_query ::
  "config \<Rightarrow> env \<Rightarrow> string list \<Rightarrow> string \<Rightarrow> string \<Rightarrow> real \<Rightarrow> world
     \<Rightarrow> (exn + bq_row list) \<times> world" where
  "run_query cfg ev user_ids start_date end_date avg_rate st =
     (if user_ids = [] then (Inr [], add_log ''WARNING'' ''Empty user IDs list'' st)
      else case slices (chunk_size cfg) user_ids of
        Inl e \<Rightarrow> (Inl e, st)
      | Inr chunks \<Rightarrow>
         (let (all_results, st1) =
                query_chunks ev start_date end_date avg_rate chunks ([], st)
          in if all_results \<noteq> []
             then (Inr (concat all_results), add_log ''INFO'' ''Query completed'' st1)
             else (Inr [], st1)))"

section \<open>Pack Processor: \<^verbatim>\<open>get_pack_csv_paths\<close> and \<^verbatim>\<open>process_pack\<close>\<close>

text \<open>\<^verbatim>\<open>s.replace(old, new)\<close> for a pattern \<open>old\<close> that is not empty.\<close>

function py_replace :: "string \<Rightarrow> string \<Rightarrow> string \<Rightarrow> string" where
  "py_replace old new [] = []"
| "py_replace old new (c # cs) =
     (if old \<noteq> [] \<and> take (length old) (c # cs) = old
      then new @ py_replace old new (drop (length old) (c # cs))
      else c # py_replace old new cs)"
  by pat_completeness auto
termination
  by (relation "measure (\<lambda>(old, new, s). length s)") auto

definition pack_name_of :: "string \<Rightarrow> string" where
  "pack_name_of csv_file =
     py_replace ''stage1_top_25k_with_ad_ids.csv'' ''stage1_top_25k''
       (py_replace ''_packs_with_ad_ids.csv'' [] csv_file)"

text \<open>\<^verbatim>\<open>str(Path(a) / b / c)\<close> for relative parts: joined by a slash.\<close>

definition path_join3 :: "string \<Rightarrow> string \<Rightarrow> string \<Rightarrow> string" where
  "path_join3 a b c = a @ ''/'' @ b @ ''/'' @ c"

definition get_pack_csv_paths ::
  "config \<Rightarrow> string list \<Rightarrow> (string \<times> string list \<times> string) list" where
  "get_pack_csv_paths cfg cohort_group =
     map (\<lambda>csv_file.
            (pack_name_of csv_file,
             map (\<lambda>cohort. path_join3 (main_folder cfg) cohort csv_file) cohort_group,
             csv_file))
         (pack_types cfg)"

text \<open>
  The loop over the batches of \<^verbatim>\<open>process_pack\<close>. \<^verbatim>\<open>run_query\<close> raises only for a chunk
  size of zero; the exception leaves \<^verbatim>\<open>process_pack\<close>.
\<close>

fun query_batches ::
  "config \<Rightarrow> env \<Rightarrow> string \<Rightarrow> string \<Rightarrow> real \<Rightarrow> string list list \<Rightarrow> bq_row list list \<times> world
     \<Rightarrow> (exn + bq_row list list) \<times> world" where
  "query_batches cfg ev start_date end_date avg_rate [] (all_batches, st) = (Inr all_batches, st)"
| "query_batches cfg ev start_date end_date avg_rate (batch_users # rest) (all_batches, st) =
     (case run_query cfg ev batch_users start_date end_date avg_rate st of
        (Inl e, st1) \<Rightarrow> (Inl e, st1)
      | (Inr batch_df, st1) \<Rightarrow>
          query_batches cfg ev start_date end_date avg_rate rest
            (if batch_df \<noteq> [] then all_batches @ [batch_df] else all_batches, st1))"

text \<open>
  \<^verbatim>\<open>process_pack\<close>: the revenue, or the exception that leaves the worker (the
  \<^verbatim>\<open>ValueError\<close> of a zero batch or chunk size, the \<^verbatim>\<open>OSError\<close> of a detail file that
  cannot be written).
\<close>

definition process_pack ::
  "config \<Rightarrow> env \<Rightarrow> string \<Rightarrow> string list \<Rightarrow> string \<Rightarrow> string \<Rightarrow> real \<Rightarrow> string \<Rightarrow> world
     \<Rightarrow> (exn + real) \<times> world" where
  "process_pack cfg ev pack_name csv_paths start_date end_date avg_rate output_dir st =
     (let (user_ids, st1) =
            extract_unique_user_ids ev csv_paths (add_log ''INFO'' ''Processing pack'' st)
      in if user_ids = [] then (Inr 0, add_log ''WARNING'' ''No IDs for pack'' st1)
         else case slices (batch_size cfg) user_ids of
           Inl e \<Rightarrow> (Inl e, st1)
         | Inr batches \<Rightarrow>
            (case query_batches cfg ev start_date end_date avg_rate batches ([], st1) of
               (Inl e, st2) \<Rightarrow> (Inl e, st2)
             | (Inr all_batches, st2) \<Rightarrow>
                 if all_batches \<noteq> []
                 then
                   (let full_df = concat all_batches;
                        total_revenue = sum_list (map product_value_INR full_df);
                        csv_file = output_dir @ ''/'' @ pack_name @ ''.csv''
                    in if to_csv_ok ev csv_file
                       then (Inr total_revenue,
                             add_log ''INFO'' ''pack revenue''
                               (st2\<lparr>csv_written := csv_written st2 @ [(csv_file, full_df)]\<rparr>))
                       else (Inl OSError, st2))
                 else (Inr 0, add_log ''INFO'' ''pack revenue'' st2)))"

section \<open>Cohort Aggregator: \<^verbatim>\<open>process_cohort_group\<close>\<close>

text \<open>
  \<^verbatim>\<open>str.capitalize()\<close>. The capitals of 0xB5, 0xDF and 0xFF lie beyond code point 255 and
  are left as they are.
\<close>

definition py_upper_char :: "char \<Rightarrow> char" where
  "py_upper_char c =
     (let n = (of_char c :: nat)
      in if (97 \<le> n \<and> n \<le> 122) \<or> (224 \<le> n \<and> n \<le> 254 \<and> n \<noteq> 247)
         then char_of (n - 32) else c)"

definition py_capitalize :: "string \<Rightarrow> string" where
  "py_capitalize s = (case s of [] \<Rightarrow> [] | c # cs \<Rightarrow> py_upper_char c # py_lower cs)"

definition revenue_field :: "string \<Rightarrow> string" where
  "revenue_field pack_name = py_capitalize pack_name @ '' Revenue''"

text \<open>\<^verbatim>\<open>d.update(other)\<close> on dictionaries kept as association lists in insertion order.\<close>

definition dict_update :: "('k \<times> 'v) list \<Rightarrow> ('k \<times> 'v) list \<Rightarrow> ('k \<times> 'v) list" where
  "dict_update d other = fold (\<lambda>kv acc. AList.update (fst kv) (snd kv) acc) other d"

text \<open>
  The pack workers. The pool runs them concurrently; the model runs them one after the other
  in submission order, each on the state the previous one left, and keeps the outcome of each
  future with its pack name (also recorded in \<open>worker_outcomes\<close>).
\<close>

fun run_packs ::
  "config \<Rightarrow> env \<Rightarrow> (string \<times> string list \<times> string) list \<Rightarrow> string \<Rightarrow> string \<Rightarrow> real \<Rightarrow> string
     \<Rightarrow> world \<Rightarrow> (string \<times> (exn + real)) list \<times> world" where
  "run_packs cfg ev [] start_date end_date avg_rate output_dir st = ([], st)"
| "run_packs cfg ev ((pack_name, csv_paths, csv_file) # rest) start_date end_date avg_rate
       output_dir st =
     (let (outcome, st1) =
            process_pack cfg ev pack_name csv_paths start_date end_date avg_rate output_dir st;
          st2 = st1\<lparr>worker_outcomes := worker_outcomes st1 @ [(pack_name, outcome)]\<rparr>;
          (outcomes, st3) = run_packs cfg ev rest start_date end_date avg_rate output_dir st2
      in ((pack_name, outcome) # outcomes, st3))"

text \<open>
  The loop \<^verbatim>\<open>for future in as_completed(...)\<close>: \<open>pack_results\<close>, the running value of
  \<^verbatim>\<open>cohort_results["Total Revenue"]\<close>, and the state.
\<close>

fun merge_completed ::
  "(string \<times> (exn + real)) list \<Rightarrow> (string \<times> pyval) list \<times> real \<times> world
     \<Rightarrow> (string \<times> pyval) list \<times> real \<times> world" where
  "merge_completed [] acc = acc"
| "merge_completed ((pack_name, outcome) # rest) (pack_results, total_revenue, st) =
     (case outcome of
        Inr revenue \<Rightarrow>
          merge_completed rest
            (AList.update (revenue_field pack_name) (PNum revenue) pack_results,
             total_revenue + revenue, st)
      | Inl exc \<Rightarrow>
          merge_completed rest
            (AList.update (revenue_field pack_name) (PNum 0) pack_results,
             total_revenue, add_log ''ERROR'' ''pack generated an exception'' st))"

text \<open>
  \<^verbatim>\<open>process_cohort_group\<close>. \<^verbatim>\<open>cohort_group[0]\<close> raises \<^verbatim>\<open>IndexError\<close> on an empty
  group. Creating the output directory is recorded in \<open>dirs_made\<close>; its failure is handled
  neither by the source nor by the specification and is not modelled.
\<close>

definition process_cohort_group ::
  "config \<Rightarrow> env \<Rightarrow> string list \<Rightarrow> world \<Rightarrow> (exn + cohort_result option) \<times> world" where
  "process_cohort_group cfg ev cohort_group st0 =
     (let st = st0\<lparr>cohort_calls := cohort_calls st0 @ [cohort_group]\<rparr>
      in case cohort_group of
           [] \<Rightarrow> (Inl IndexError, st)
         | cohort_label # _ \<Rightarrow>
            (let ((start_opt, end_opt), st1) =
                   get_date_range cfg ev cohort_label
                     (add_log ''INFO'' ''Processing cohort group'' st)
             in case (start_opt, end_opt) of
                  (Some start_date, Some end_date) \<Rightarrow>
                    if start_date = [] \<or> end_date = []
                    then (Inr None, add_log ''ERROR'' ''Invalid dates'' st1)
                    else
                      (let (avg_rate, st2) = get_exchange_rate cfg ev start_date end_date st1;
                           output_dir = output_folder cfg @ ''/'' @ cohort_label;
                           st3 = st2\<lparr>dirs_made := dirs_made st2 @ [output_dir]\<rparr>;
                           packs = get_pack_csv_paths cfg cohort_group;
                           (outcomes, st4) =
                             run_packs cfg ev packs start_date end_date avg_rate output_dir st3;
                           (pack_results, total_revenue, st5) =
                             merge_completed (as_completed ev outcomes) ([], 0, st4);
                           cohort_results =
                             dict_update
                               [(''Cohort'', PStr cohort_label),
                                (''Total Revenue'', PNum total_revenue)]
                               pack_results
                       in (Inr (Some cohort_results),
                           add_log ''INFO'' ''Completed cohort'' st5))
                | _ \<Rightarrow> (Inr None, add_log ''ERROR'' ''Invalid dates'' st1)))"

section \<open>Pipeline Orchestrator\<close>

definition initialize_client :: "env \<Rightarrow> world \<Rightarrow> bool \<times> world" where
  "initialize_client ev st =
     (if client_ok ev
      then (True, add_log ''INFO'' ''BigQuery client initialized successfully''
                    (st\<lparr>has_client := True\<rparr>))
      else (False, add_log ''ERROR'' ''Failed to initialize BigQuery client'' st))"

text \<open>
  The sort key of \<^verbatim>\<open>get_cohort_folders\<close>:
  \<^verbatim>\<open>int(x.split('_')[0]) if x.split('_')[0].isdigit() else 0\<close>.
\<close>

definition folder_key :: "string \<Rightarrow> exn + int" where
  "folder_key x =
     (case split_on CHR ''_'' x of
        [] \<Rightarrow> Inl IndexError
      | p # _ \<Rightarrow> if py_isdigit p then py_int p else Inr 0)"

fun all_keys :: "string list \<Rightarrow> exn + (int \<times> string) list" where
  "all_keys [] = Inr []"
| "all_keys (x # xs) =
     (case folder_key x of
        Inl e \<Rightarrow> Inl e
      | Inr k \<Rightarrow> (case all_keys xs of Inl e \<Rightarrow> Inl e | Inr ks \<Rightarrow> Inr ((k, x) # ks)))"

text \<open>
  \<^verbatim>\<open>get_cohort_folders\<close>: \<^verbatim>\<open>list.sort\<close> is stable and computes every key before it
  compares; an exception of the listing or of a key is caught and gives the empty list.
\<close>

definition get_cohort_folders :: "config \<Rightarrow> env \<Rightarrow> world \<Rightarrow> string list \<times> world" where
  "get_cohort_folders cfg ev st =
     (if \<not> path_exists ev (main_folder cfg)
      then ([], add_log ''ERROR'' ''Main folder not found'' st)
      else case iterdir ev (main_folder cfg) of
        Inl e \<Rightarrow> ([], add_log ''ERROR'' ''Error getting cohort folders'' st)
      | Inr folders \<Rightarrow>
         (case all_keys folders of
            Inl e \<Rightarrow> ([], add_log ''ERROR'' ''Error getting cohort folders'' st)
          | Inr keyed \<Rightarrow> (map snd (sort_key fst keyed), add_log ''INFO'' ''Found cohort folders'' st)))"

text \<open>The columns of \<^verbatim>\<open>pd.DataFrame(results)\<close>: the keys in order of first appearance.\<close>

definition frame_columns :: "cohort_result list \<Rightarrow> string list" where
  "frame_columns results = rev (remdups (rev (concat (map (map fst) results))))"

text \<open>
  \<^verbatim>\<open>save_summary\<close>: selecting a column the frame does not have raises \<^verbatim>\<open>KeyError\<close>;
  that and a failed write are caught and logged. A cell a record lacks is \<open>None\<close>.
\<close>

definition save_summary :: "config \<Rightarrow> env \<Rightarrow> cohort_result list \<Rightarrow> world \<Rightarrow> world" where
  "save_summary cfg ev results st =
     (let df_columns = frame_columns results;
          pack_columns =
            filter (\<lambda>col. str_contains ''Revenue'' col \<and> col \<noteq> ''Total Revenue'') df_columns;
          columns = [''Cohort'', ''Total Revenue''] @ pack_columns;
          output_excel = output_folder cfg @ ''/'' @ ''revenue_summary.xlsx''
      in if \<not> list_all (\<lambda>col. col \<in> set df_columns) columns
         then add_log ''ERROR'' ''Error saving summary'' st
         else if \<not> to_excel_ok ev output_excel
         then add_log ''ERROR'' ''Error saving summary'' st
         else add_log ''INFO'' ''Summary saved''
                (st\<lparr>excel_written :=
                      excel_written st
                        @ [(output_excel, columns,
                            map (\<lambda>r. map (\<lambda>col. map_of r col) columns) results)]\<rparr>))"

text \<open>
  The body both loops share, from the call of \<^verbatim>\<open>process_cohort_group\<close> to
  \<^verbatim>\<open>update_progress\<close>. A result is a dictionary that is never empty, so \<^verbatim>\<open>if result\<close>
  fails exactly for \<^verbatim>\<open>None\<close>.
\<close>

definition process_window ::
  "config \<Rightarrow> env \<Rightarrow> string list \<Rightarrow> cohort_result list \<times> real \<times> world
     \<Rightarrow> (exn + cohort_result list \<times> real) \<times> world" where
  "process_window cfg ev cohort_group acc =
     (case acc of (results, total_revenue, st) \<Rightarrow>
        (case process_cohort_group cfg ev cohort_group st of
           (Inl e, st1) \<Rightarrow> (Inl e, st1)
         | (Inr None, st1) \<Rightarrow> (Inr (results, total_revenue), st1)
         | (Inr (Some result), st1) \<Rightarrow>
            (case map_of result ''Total Revenue'' of
               Some (PNum t) \<Rightarrow>
                 (let st2 = st1\<lparr>processed_cohorts := processed_cohorts st1 + 1\<rparr>
                  in (Inr (results @ [result], total_revenue + t),
                      update_progress (processed_cohorts st2) (total_cohorts st2)
                        (total_revenue + t) st2))
             | Some (PStr s) \<Rightarrow> (Inl TypeError, st1)
             | None \<Rightarrow> (Inl KeyError, st1))))"

text \<open>The loop of \<^verbatim>\<open>run_full_pipeline\<close>: a group is processed when it has the window size.\<close>

fun full_pipeline_loop ::
  "config \<Rightarrow> env \<Rightarrow> string list list \<Rightarrow> cohort_result list \<times> real \<times> world
     \<Rightarrow> (exn + cohort_result list \<times> real) \<times> world" where
  "full_pipeline_loop cfg ev [] (results, total_revenue, st) = (Inr (results, total_revenue), st)"
| "full_pipeline_loop cfg ev (cohort_group # rest) (results, total_revenue, st) =
     (if int (length cohort_group) = window_size cfg
      then case process_window cfg ev cohort_group (results, total_revenue, st) of
             (Inl e, st1) \<Rightarrow> (Inl e, st1)
           | (Inr (results1, total1), st1) \<Rightarrow>
               full_pipeline_loop cfg ev rest (results1, total1, st1)
      else full_pipeline_loop cfg ev rest (results, total_revenue, st))"

text \<open>The loop of \<^verbatim>\<open>run_specific_cohorts\<close>: every group is processed.\<close>

fun specific_cohorts_loop ::
  "config \<Rightarrow> env \<Rightarrow> string list list \<Rightarrow> cohort_result list \<times> real \<times> world
     \<Rightarrow> (exn + cohort_result list \<times> real) \<times> world" where
  "specific_cohorts_loop cfg ev [] (results, total_revenue, st) =
     (Inr (results, total_revenue), st)"
| "specific_cohorts_loop cfg ev (cohort_group # rest) (results, total_revenue, st) =
     (case process_window cfg ev cohort_group (results, total_revenue, st) of
        (Inl e, st1) \<Rightarrow> (Inl e, st1)
      | (Inr (results1, total1), st1) \<Rightarrow>
          specific_cohorts_loop cfg ev rest (results1, total1, st1))"

text \<open>
  \<^verbatim>\<open>run_full_pipeline\<close>. \<^verbatim>\<open>len(cohort_folders) // window_size\<close> raises
  \<^verbatim>\<open>ZeroDivisionError\<close> for a window size of zero. The summary is saved when there are
  results.
\<close>

definition run_full_pipeline :: "config \<Rightarrow> env \<Rightarrow> world \<Rightarrow> (exn + cohort_result list) \<times> world" where
  "run_full_pipeline cfg ev st0 =
     (case initialize_client ev st0 of
        (False, st1) \<Rightarrow> (Inl (PipelineError ''Failed to initialize BigQuery client''), st1)
      | (True, st1) \<Rightarrow>
         (let st2 = st1\<lparr>dirs_made := dirs_made st1 @ [output_folder cfg]\<rparr>;
              (cohort_folders, st3) = get_cohort_folders cfg ev st2
          in if cohort_folders = [] then (Inl (PipelineError ''No cohort folders found''), st3)
             else if window_size cfg = 0 then (Inl ZeroDivisionError, st3)
             else
               (let st4 = st3\<lparr>total_cohorts := int (length cohort_folders) div window_size cfg\<rparr>;
                    st5 = update_progress 0 (total_cohorts st4) 0 st4
                in case slices (window_size cfg) cohort_folders of
                     Inl e \<Rightarrow> (Inl e, st5)
                   | Inr groups \<Rightarrow>
                      (case full_pipeline_loop cfg ev groups ([], 0, st5) of
                         (Inl e, st6) \<Rightarrow> (Inl e, st6)
                       | (Inr (results, total_revenue), st6) \<Rightarrow>
                           (let st7 = (if results \<noteq> [] then save_summary cfg ev results st6
                                       else st6)
                            in (Inr results, add_log ''INFO'' ''Pipeline completed'' st7))))))"

text \<open>\<^verbatim>\<open>run_specific_cohorts\<close>. It returns the results without a call of \<^verbatim>\<open>save_summary\<close>.\<close>

definition run_specific_cohorts ::
  "config \<Rightarrow> env \<Rightarrow> string list \<Rightarrow> world \<Rightarrow> (exn + cohort_result list) \<times> world" where
  "run_specific_cohorts cfg ev selected_cohorts st0 =
     (case initialize_client ev st0 of
        (False, st1) \<Rightarrow> (Inl (PipelineError ''Failed to initialize BigQuery client''), st1)
      | (True, st1) \<Rightarrow>
          if selected_cohorts = [] then (Inl (PipelineError ''No cohorts selected''), st1)
          else case slices (window_size cfg) selected_cohorts of
            Inl e \<Rightarrow> (Inl e, st1)
          | Inr cohort_groups \<Rightarrow>
             (let st2 = st1\<lparr>total_cohorts := int (length cohort_groups)\<rparr>;
                  st3 = update_progress 0 (total_cohorts st2) 0 st2
              in case specific_cohorts_loop cfg ev cohort_groups ([], 0, st3) of
                   (Inl e, st4) \<Rightarrow> (Inl e, st4)
                 | (Inr (results, total_revenue), st4) \<Rightarrow>
                     (Inr results, add_log ''INFO'' ''Specific cohorts pipeline completed'' st4)))"

section \<open>Predicates of the statements\<close>

text \<open>An identifier is clean: not empty, not white space only, and trimmed.\<close>

definition clean_id :: "string \<Rightarrow> bool" where
  "clean_id u \<longleftrightarrow> u \<noteq> [] \<and> \<not> list_all py_isspace u \<and> py_strip u = u"

text \<open>
  The identifier cache holds only what \<^verbatim>\<open>extract_unique_user_ids\<close> stores: lists of clean
  identifiers without repetition.
\<close>

definition cache_clean :: "world \<Rightarrow> bool" where
  "cache_clean st \<longleftrightarrow>
     (\<forall>k ids. user_cache st k = Some ids \<longrightarrow> distinct ids \<and> (\<forall>u\<in>set ids. clean_id u))"

text \<open>The identifiers one source file contributes, and those of a list of paths.\<close>

definition file_ids :: "env \<Rightarrow> string \<Rightarrow> string list" where
  "file_ids ev csv_path =
     (if path_exists ev csv_path
      then (case read_csv ev csv_path of Inl e \<Rightarrow> [] | Inr cells \<Rightarrow> valid_ids cells)
      else [])"

text \<open>
  The identifier cache agrees with the files: an entry holds the identifiers of the files of
  its key.
\<close>

definition cache_sound :: "env \<Rightarrow> world \<Rightarrow> bool" where
  "cache_sound ev st \<longleftrightarrow>
     (\<forall>k ids. user_cache st k = Some ids \<longrightarrow> set ids = (\<Union>p\<in>set k. set (file_ids ev p)))"

text \<open>
  Every future completes once: the completion order is a rearrangement of the futures
  submitted.
\<close>

definition fair_completion :: "env \<Rightarrow> bool" where
  "fair_completion ev \<longleftrightarrow> (\<forall>outcomes. mset (as_completed ev outcomes) = mset outcomes)"

text \<open>The rate the undecorated method returns; it does not depend on the state.\<close>

definition resolved_rate :: "config \<Rightarrow> env \<Rightarrow> string \<Rightarrow> string \<Rightarrow> real" where
  "resolved_rate cfg ev start_date end_date =
     (if \<not> use_live_rates cfg then fallback_rate cfg
      else case live_rate (http_get ev (rate_url start_date end_date)) of
             Inr (Inr avg_rate) \<Rightarrow> avg_rate
           | _ \<Rightarrow> fallback_rate cfg)"

text \<open>The rate cache holds only rates the method computed under this configuration.\<close>

definition rate_cache_sound :: "config \<Rightarrow> env \<Rightarrow> world \<Rightarrow> bool" where
  "rate_cache_sound cfg ev st \<longleftrightarrow>
     (\<forall>k r. (k, r) \<in> set (rate_cache st) \<longrightarrow> r = resolved_rate cfg ev (fst k) (snd k))"

text \<open>
  The backend call \<^verbatim>\<open>run_query\<close> issues for a chunk, and the rows the chunk contributes:
  those the backend returns, none when the call fails.
\<close>

definition chunk_query :: "string \<Rightarrow> string \<Rightarrow> real \<Rightarrow> string list \<Rightarrow> bq_query" where
  "chunk_query start_date end_date avg_rate chunk =
     \<lparr>q_start = start_date, q_end = end_date, q_rate = avg_rate, q_ids = chunk\<rparr>"

definition chunk_rows :: "env \<Rightarrow> bq_query \<Rightarrow> bq_row list" where
  "chunk_rows ev q = (case run_bq ev q of Inl e \<Rightarrow> [] | Inr df \<Rightarrow> df)"

text \<open>The revenue recorded for a worker: what it returned, zero when it raised.\<close>

definition outcome_value :: "exn + real \<Rightarrow> real" where
  "outcome_value outcome = (case outcome of Inl e \<Rightarrow> 0 | Inr revenue \<Rightarrow> revenue)"

section \<open>A concrete run\<close>

text \<open>
  One small file system, rate service and backend, used to evaluate the model: the folder
  \<^verbatim>\<open>data\<close> holds three cohort folders, two pack files exist, the rate service answers
  with two daily rates, the backend returns one row of 100 rupees for each identifier, and
  the workers complete in reverse order of submission.
\<close>

definition demo_rates :: json where
  "demo_rates =
     JObj [(''amount'', JNum 1), (''base'', JStr ''USD''),
           (''rates'', JObj [(''2025-07-01'', JObj [(''INR'', JNum 86)]),
                             (''2025-07-02'', JObj [(''INR'', JNum 88)])])]"

definition demo_env :: env where
  "demo_env =
     \<lparr>current_year = 2025,
      path_exists = (\<lambda>p. p = ''data'' \<or> p = ''data/1_july/premium_packs_with_ad_ids.csv''
                          \<or> p = ''data/1_july/career_packs_with_ad_ids.csv''),
      read_csv = (\<lambda>p. if p = ''data/1_july/premium_packs_with_ad_ids.csv''
                        then Inr [Some ''u1'', None, Some '' u2 '', Some ''u1'', Some ''  '', Some ''u3'']
                        else if p = ''data/1_july/career_packs_with_ad_ids.csv''
                        then Inr [Some ''u9'']
                        else Inl ParserError),
      iterdir = (\<lambda>p. if p = ''data'' then Inr [''2_july'', ''1_july'', ''10_july'']
                       else Inl OSError),
      http_get = (\<lambda>u. Inr \<lparr>status_code = 200, json_body = Inr demo_rates\<rparr>),
      client_ok = True,
      run_bq = (\<lambda>q. Inr (map (\<lambda>u. \<lparr>event_date = q_start q, product_id = ''pack'',
                                      product_value = 1, product_value_INR = 100,
                                      user_pseudo_id = u\<rparr>) (q_ids q))),
      to_csv_ok = (\<lambda>p. True),
      to_excel_ok = (\<lambda>p. True),
      as_completed = rev\<rparr>"

section \<open>Calendar arithmetic\<close>


lemma div_step:
  fixes x k :: int
  assumes "0 < k"
  shows "(x + 1) div k = x div k + (if (x + 1) mod k = 0 then 1 else 0)"
proof -
  define q where "q = x div k"
  define r where "r = x mod k"
  have x: "x = k * q + r" by (simp add: q_def r_def)
  have r: "0 \<le> r" "r < k" using assms by (simp_all add: r_def)
  show ?thesis
  proof (cases "r + 1 = k")
    case True
    then have e: "x + 1 = k * (q + 1) + 0" using x by (simp add: algebra_simps)
    have "(x + 1) div k = q + 1" using assms by (intro int_div_pos_eq [OF e]) simp_all
    moreover have "(x + 1) mod k = 0" using assms by (intro int_mod_pos_eq [OF e]) simp_all
    ultimately show ?thesis by (simp add: q_def)
  next
    case False
    then have lt: "r + 1 < k" using r by simp
    have e: "x + 1 = k * q + (r + 1)" using x by simp
    have "(x + 1) div k = q" using r lt by (intro int_div_pos_eq [OF e]) simp_all
    moreover have "(x + 1) mod k = r + 1" using r lt by (intro int_mod_pos_eq [OF e]) simp_all
    ultimately show ?thesis using r by (simp add: q_def)
  qed
qed

lemma leap_step:
  fixes a4 a100 a400 b4 b100 b400 y :: int
  assumes "b4 = a4 + (if m4 then 1 else 0)" "b100 = a100 + (if m100 then 1 else 0)"
    "b400 = a400 + (if m400 then 1 else 0)" "m400 \<Longrightarrow> m100" "m100 \<Longrightarrow> m4"
  shows "y * 365 + b4 - b100 + b400 =
     y * 365 - 365 + a4 - a100 + a400 + (if m4 \<and> (m400 \<or> \<not> m100) then 366 else 365)"
  using assms by (cases m4; cases m100; cases m400; simp)

lemma days_before_year_step:
  "days_before_year (y + 1) = days_before_year y + (if is_leap y then 366 else 365)"
proof -
  have a: "y div 4 = (y - 1) div 4 + (if y mod 4 = 0 then 1 else 0)"
    using div_step [of 4 "y - 1"] by simp
  have b: "y div 100 = (y - 1) div 100 + (if y mod 100 = 0 then 1 else 0)"
    using div_step [of 100 "y - 1"] by simp
  have c: "y div 400 = (y - 1) div 400 + (if y mod 400 = 0 then 1 else 0)"
    using div_step [of 400 "y - 1"] by simp
  have "(100::int) dvd 400" "(4::int) dvd 100" by simp_all
  then have "400 dvd y \<Longrightarrow> 100 dvd y" "100 dvd y \<Longrightarrow> 4 dvd y"
    using dvd_trans by blast+
  then have d: "y mod 400 = 0 \<Longrightarrow> y mod 100 = 0" "y mod 100 = 0 \<Longrightarrow> y mod 4 = 0"
    by (simp_all only: mod_eq_0_iff_dvd)
  have e: "days_before_year (y + 1) = y * 365 + y div 4 - y div 100 + y div 400"
    by (simp only: days_before_year_def add_diff_cancel_right')
  have f: "days_before_year y = y * 365 - 365 + (y - 1) div 4 - (y - 1) div 100 + (y - 1) div 400"
    by (simp only: days_before_year_def left_diff_distrib mult_1)
  show ?thesis
    unfolding e f is_leap_def by (rule leap_step [OF a b c d])
qed

lemma month_cases: "1 \<le> (m::int) \<Longrightarrow> m \<le> 12 \<Longrightarrow>
  m = 1 \<or> m = 2 \<or> m = 3 \<or> m = 4 \<or> m = 5 \<or> m = 6 \<or> m = 7 \<or> m = 8 \<or> m = 9 \<or> m = 10 \<or> m = 11 \<or> m = 12"
  by arith

lemma days_before_month_step:
  "1 \<le> m \<Longrightarrow> m < 12 \<Longrightarrow> days_before_month y (m + 1) = days_before_month y m + days_in_month y m"
  using month_cases [of m]
  by (auto simp: days_before_month_def days_in_month_def)

lemma days_before_month_12: "days_before_month y 12 + 31 = (if is_leap y then 366 else 365)"
  by (simp add: days_before_month_def)

lemma days_before_month_1: "days_before_month y 1 = 0"
  by (simp add: days_before_month_def)

lemma days_in_month_12: "days_in_month y 12 = 31"
  by (simp add: days_in_month_def)

lemma toordinal_tomorrow:
  assumes "valid_date d"
  shows "toordinal (tomorrow d) = toordinal d + 1"
proof -
  from assms have v: "1 \<le> month d" "month d \<le> 12" "1 \<le> day d"
    "day d \<le> days_in_month (year d) (month d)"
    by (simp_all add: valid_date_def)
  consider (a) "day d < days_in_month (year d) (month d)"
    | (b) "day d = days_in_month (year d) (month d)" "month d < 12"
    | (c) "day d = days_in_month (year d) (month d)" "month d = 12"
    using v by linarith
  then show ?thesis
  proof cases
    case a
    then show ?thesis by (simp add: tomorrow_def toordinal_def)
  next
    case b
    then show ?thesis
      using days_before_month_step [of "month d" "year d"] v
      by (simp add: tomorrow_def toordinal_def)
  next
    case c
    then show ?thesis
      using days_before_month_12 [of "year d"] days_before_year_step [of "year d"]
      by (simp add: tomorrow_def toordinal_def days_before_month_1 days_in_month_12)
  qed
qed

lemma days_in_month_bounds: "28 \<le> days_in_month y m \<and> days_in_month y m \<le> 31"
  by (simp add: days_in_month_def)

lemma valid_tomorrow:
  assumes "valid_date d"
  shows "valid_date (tomorrow d)"
proof -
  have "1 \<le> days_in_month y m" for y m
    using days_in_month_bounds [of y m] by linarith
  then show ?thesis
    using assms by (simp add: valid_date_def tomorrow_def)
qed

lemma toordinal_yesterday:
  assumes "valid_date d"
  shows "toordinal (yesterday d) = toordinal d - 1"
proof -
  from assms have v: "1 \<le> month d" "month d \<le> 12" "1 \<le> day d"
    "day d \<le> days_in_month (year d) (month d)"
    by (simp_all add: valid_date_def)
  consider (a) "1 < day d" | (b) "day d = 1" "1 < month d" | (c) "day d = 1" "month d = 1"
    using v by linarith
  then show ?thesis
  proof cases
    case a
    then show ?thesis by (simp add: yesterday_def toordinal_def)
  next
    case b
    then show ?thesis
      using days_before_month_step [of "month d - 1" "year d"] v
      by (simp add: yesterday_def toordinal_def)
  next
    case c
    then show ?thesis
      using days_before_month_12 [of "year d - 1"] days_before_year_step [of "year d - 1"]
      by (simp add: yesterday_def toordinal_def days_before_month_1)
  qed
qed

lemma valid_yesterday:
  assumes "valid_date d"
  shows "valid_date (yesterday d)"
proof -
  have "1 \<le> days_in_month y m" for y m
    using days_in_month_bounds [of y m] by linarith
  then show ?thesis
    using assms by (simp add: valid_date_def yesterday_def days_in_month_12)
qed

lemma shift_days_nat:
  "valid_date d \<Longrightarrow>
     valid_date ((tomorrow ^^ n) d) \<and> toordinal ((tomorrow ^^ n) d) = toordinal d + int n"
  by (induction n) (simp_all add: valid_tomorrow toordinal_tomorrow)

lemma shift_days_back_nat:
  "valid_date d \<Longrightarrow>
     valid_date ((yesterday ^^ n) d) \<and> toordinal ((yesterday ^^ n) d) = toordinal d - int n"
  by (induction n) (simp_all add: valid_yesterday toordinal_yesterday)

lemma shift_days_ordinal:
  assumes "valid_date d"
  shows "valid_date (shift_days d k) \<and> toordinal (shift_days d k) = toordinal d + k"
  using shift_days_nat [OF assms, of "nat k"] shift_days_back_nat [OF assms, of "nat (- k)"]
  by (simp add: shift_days_def)


lemma days_before_year_mono: "y \<le> y' \<Longrightarrow> days_before_year y \<le> days_before_year y'"
proof (induction y' rule: int_ge_induct)
  case base
  show ?case by simp
next
  case (step i)
  then show ?case using days_before_year_step [of i] by (simp split: if_splits)
qed

lemma days_before_year_1: "days_before_year 1 = 0"
  by (simp add: days_before_year_def)

lemma days_before_year_10000: "days_before_year 10000 = 3652059"
  by (simp add: days_before_year_def)

lemma toordinal_in_year:
  assumes "valid_date d"
  shows "days_before_year (year d) < toordinal d \<and> toordinal d \<le> days_before_year (year d + 1)"
proof -
  from assms have v: "1 \<le> month d" "month d \<le> 12" "1 \<le> day d"
    "day d \<le> days_in_month (year d) (month d)"
    by (simp_all add: valid_date_def)
  have "0 \<le> days_before_month (year d) (month d) \<and>
        days_before_month (year d) (month d) + days_in_month (year d) (month d)
          \<le> (if is_leap (year d) then 366 else 365)"
    using month_cases [OF v(1,2)]
    by (auto simp: days_before_month_def days_in_month_def)
  then show ?thesis
    using v days_before_year_step [of "year d"] by (simp add: toordinal_def split: if_splits)
qed

lemma year_in_range:
  assumes "valid_date d" "1 \<le> toordinal d" "toordinal d \<le> 3652059"
  shows "1 \<le> year d \<and> year d \<le> 9999"
proof -
  have a: "days_before_year (year d) < toordinal d" "toordinal d \<le> days_before_year (year d + 1)"
    using toordinal_in_year [OF assms(1)] by simp_all
  have "1 \<le> year d"
  proof (rule ccontr)
    assume "\<not> 1 \<le> year d"
    then have "year d + 1 \<le> 1" by simp
    from days_before_year_mono [OF this] show False
      using a assms by (simp add: days_before_year_1)
  qed
  moreover have "year d \<le> 9999"
  proof (rule ccontr)
    assume "\<not> year d \<le> 9999"
    then have "10000 \<le> year d" by simp
    from days_before_year_mono [OF this] show False
      using a assms by (simp add: days_before_year_10000)
  qed
  ultimately show ?thesis by simp
qed

lemma split_on_none: "c \<notin> set s \<Longrightarrow> split_on c s = [s]"
  by (induction s) auto

lemma split_on_append: "c \<notin> set a \<Longrightarrow> split_on c (a @ c # b) = a # split_on c b"
  by (induction a) auto

lemma split_on_label:
  "c \<notin> set a \<Longrightarrow> c \<notin> set b \<Longrightarrow> split_on c (a @ c # b) = [a, b]"
  by (simp add: split_on_append split_on_none)

lemma py_lower_underscore: "py_lower_char CHR ''_'' = CHR ''_''"
  by code_simp

lemma month_map_no_underscore:
  assumes "month_map (py_lower t) = Some m"
  shows "CHR ''_'' \<notin> set t \<and> 1 \<le> m \<and> m \<le> 12"
proof -
  from assms have "(py_lower t, m) \<in> set
     [(''january'', 1), (''jan'', 1), (''february'', 2), (''feb'', 2), (''march'', 3),
      (''mar'', 3), (''april'', 4), (''apr'', 4), (''may'', 5), (''june'', 6),
      (''jun'', 6), (''july'', 7), (''jul'', 7), (''august'', 8), (''aug'', 8),
      (''september'', 9), (''sep'', 9), (''october'', 10), (''oct'', 10),
      (''november'', 11), (''nov'', 11), (''december'', 12), (''dec'', 12)]"
    unfolding month_map_def by (rule map_of_SomeD)
  then have "CHR ''_'' \<notin> set (py_lower t) \<and> 1 \<le> m \<and> m \<le> 12"
    by auto
  moreover have "CHR ''_'' \<in> set t \<Longrightarrow> CHR ''_'' \<in> set (py_lower t)"
    using py_lower_underscore by (force simp: py_lower_def)
  ultimately show ?thesis by blast
qed

section \<open>Cohort Resolver\<close>

lemma date_range_try_label:
  assumes tok: "CHR ''_'' \<notin> set dtok"
    and dy: "py_int dtok = Inr d"
    and mon: "month_map (py_lower mtok) = Some m"
    and yr: "1 \<le> cy" "cy \<le> 9999"
    and rng: "1 \<le> d" "d \<le> days_in_month cy m"
    and w: "1 \<le> w"
    and fin: "toordinal \<lparr>year = cy, month = m, day = d\<rparr> + (w - 1) \<le> 3652059"
  shows "date_range_try w cy (dtok @ ''_'' @ mtok)
           = Inr (\<lparr>year = cy, month = m, day = d\<rparr>,
                  shift_days \<lparr>year = cy, month = m, day = d\<rparr> (w - 1))"
proof -
  let ?s = "\<lparr>year = cy, month = m, day = d\<rparr>"
  have m: "CHR ''_'' \<notin> set mtok" "1 \<le> m" "m \<le> 12"
    using month_map_no_underscore [OF mon] by simp_all
  have parts: "split_on CHR ''_'' (dtok @ CHR ''_'' # mtok) = [dtok, mtok]"
    by (rule split_on_label [OF tok m(1)])
  have mk: "mk_datetime cy m d = Inr ?s"
    using yr rng m by (simp add: mk_datetime_def)
  have v: "valid_date ?s" using rng m by (simp add: valid_date_def)
  have pos: "1 \<le> toordinal ?s"
    using toordinal_in_year [OF v] days_before_year_mono [of 1 cy] yr
    by (simp add: days_before_year_1)
  have td: "timedelta (w - 1) = Inr (w - 1)"
    using w fin pos by (simp add: timedelta_def)
  have e: "valid_date (shift_days ?s (w - 1))"
    "toordinal (shift_days ?s (w - 1)) = toordinal ?s + (w - 1)"
    using shift_days_ordinal [OF v, of "w - 1"] by simp_all
  have "1 \<le> year (shift_days ?s (w - 1)) \<and> year (shift_days ?s (w - 1)) \<le> 9999"
    using year_in_range [OF e(1)] e(2) pos w fin by simp
  then have add: "datetime_add ?s (w - 1) = Inr (shift_days ?s (w - 1))"
    by (simp add: datetime_add_def Let_def)
  show ?thesis
    by (simp add: date_range_try_def parts dy mon mk td add)
qed

text \<open>
  Claim C2, as the code has it. A label \<open>dtok_mtok\<close> whose day token reads as the integer
  \<open>d\<close> and whose month token, in any case, is a full month name or a three-letter
  abbreviation resolves when \<open>d\<close> is a day of that month in the current year (from 1 to the
  length of the month, not to 31) and the window ends by 9999-12-31: the start is day \<open>d\<close>
  of the month in the current year, and the end is \<open>window_size - 1\<close> days later.
\<close>

theorem get_date_range_valid_label:
  assumes "CHR ''_'' \<notin> set dtok"
    and "py_int dtok = Inr d"
    and "month_map (py_lower mtok) = Some m"
    and "1 \<le> current_year ev" "current_year ev \<le> 9999"
    and "1 \<le> d" "d \<le> days_in_month (current_year ev) m"
    and "1 \<le> window_size cfg"
    and "toordinal \<lparr>year = current_year ev, month = m, day = d\<rparr> + (window_size cfg - 1)
           \<le> 3652059"
  shows "\<exists>e. fst (get_date_range cfg ev (dtok @ ''_'' @ mtok) st)
             = (Some (strftime_ymd \<lparr>year = current_year ev, month = m, day = d\<rparr>),
                Some (strftime_ymd e))
           \<and> valid_date e
           \<and> toordinal e
               = toordinal \<lparr>year = current_year ev, month = m, day = d\<rparr> + (window_size cfg - 1)"
proof -
  let ?s = "\<lparr>year = current_year ev, month = m, day = d\<rparr>"
  have m: "1 \<le> m" "m \<le> 12"
    using month_map_no_underscore [OF assms(3)] by simp_all
  have v: "valid_date ?s" using assms(6,7) m by (simp add: valid_date_def)
  have "date_range_try (window_size cfg) (current_year ev) (dtok @ ''_'' @ mtok)
          = Inr (?s, shift_days ?s (window_size cfg - 1))"
    by (rule date_range_try_label [OF assms])
  then have "fst (get_date_range cfg ev (dtok @ ''_'' @ mtok) st)
          = (Some (strftime_ymd ?s), Some (strftime_ymd (shift_days ?s (window_size cfg - 1))))"
    by (simp add: get_date_range_def)
  then show ?thesis
    using shift_days_ordinal [OF v, of "window_size cfg - 1"] by blast
qed

lemma eval_30_jun:
  "py_int ''30'' = Inr 30" "month_map (py_lower ''Jun'') = Some 6"
  "days_in_month 2025 6 = 30"
  "toordinal \<lparr>year = 2025, month = 6, day = 30\<rparr> = 739432"
  by code_simp+

theorem get_date_range_valid_label_witness:
  "py_int ''30'' = Inr 30 \<and> month_map (py_lower ''Jun'') = Some 6
   \<and> (\<exists>e. fst (get_date_range (default_config ''data'' ''out'') demo_env ''30_Jun'' new_world)
              = (Some (strftime_ymd \<lparr>year = 2025, month = 6, day = 30\<rparr>), Some (strftime_ymd e))
            \<and> valid_date e \<and> toordinal e = 739434)"
  using get_date_range_valid_label [of "''30''" 30 "''Jun''" 6 demo_env
      "default_config ''data'' ''out''" new_world]
  by (simp add: eval_30_jun demo_env_def default_config_def)

lemma feb31: "date_range_try w cy ''31_february'' = Inl ValueError"
proof -
  have a: "split_on CHR ''_'' ''31_february'' = [''31'', ''february'']" by simp
  have b: "py_int ''31'' = Inr 31" by code_simp
  have c: "month_map (py_lower ''february'') = Some 2" by code_simp
  have d: "mk_datetime cy 2 31 = Inl ValueError"
    by (simp add: mk_datetime_def days_in_month_def)
  show ?thesis by (simp add: date_range_try_def a b c d)
qed

lemma july0: "date_range_try w cy ''0_july'' = Inl ValueError"
proof -
  have a: "split_on CHR ''_'' ''0_july'' = [''0'', ''july'']" by simp
  have b: "py_int ''0'' = Inr 0" by code_simp
  have c: "month_map (py_lower ''july'') = Some 7" by code_simp
  have d: "mk_datetime cy 7 0 = Inl ValueError"
    by (simp add: mk_datetime_def)
  show ?thesis by (simp add: date_range_try_def a b c d)
qed

lemma eval_31_february:
  "py_int ''31'' = Inr 31" "month_map (py_lower ''february'') = Some 2"
  by code_simp+

theorem get_date_range_day_31_counterexample:
  "py_int ''31'' = Inr 31 \<and> month_map (py_lower ''february'') = Some 2
   \<and> fst (get_date_range (default_config ''data'' ''out'') demo_env ''31_february'' new_world)
       = (None, None)"
  by (simp add: eval_31_february get_date_range_def feb31)

text \<open>
  Claim C10: date resolution is total. For every label, configuration and year the method
  returns either two date strings or \<^verbatim>\<open>(None, None)\<close>, never a mixed pair; a day outside
  the month, as in \<^verbatim>\<open>31_february\<close> and \<^verbatim>\<open>0_july\<close>, makes the \<^verbatim>\<open>datetime\<close>
  constructor raise inside the \<^verbatim>\<open>try\<close> block and is answered by \<^verbatim>\<open>(None, None)\<close>.
\<close>

theorem get_date_range_total:
  "(fst (get_date_range cfg ev s st) = (None, None)
      \<or> (\<exists>a b. fst (get_date_range cfg ev s st) = (Some a, Some b)))
   \<and> fst (get_date_range cfg ev ''31_february'' st) = (None, None)
   \<and> fst (get_date_range cfg ev ''0_july'' st) = (None, None)"
  by (auto simp: get_date_range_def feb31 july0 split: sum.splits)

theorem get_date_range_total_witness:
  "fst (get_date_range (default_config ''data'' ''out'') demo_env ''31_february'' new_world)
     = (None, None)
   \<and> fst (get_date_range (default_config ''data'' ''out'') demo_env ''0_july'' new_world)
     = (None, None)"
  using get_date_range_total [of "default_config ''data'' ''out''" demo_env "''x''" new_world]
  by simp

section \<open>Identifier Extractor\<close>

lemma add_log_fields [simp]:
  "pipeline_status (add_log l m st) = pipeline_status st"
  "has_client (add_log l m st) = has_client st"
  "user_cache (add_log l m st) = user_cache st"
  "rate_cache (add_log l m st) = rate_cache st"
  "total_cohorts (add_log l m st) = total_cohorts st"
  "processed_cohorts (add_log l m st) = processed_cohorts st"
  "csv_reads (add_log l m st) = csv_reads st"
  "http_calls (add_log l m st) = http_calls st"
  "bq_calls (add_log l m st) = bq_calls st"
  "dirs_made (add_log l m st) = dirs_made st"
  "csv_written (add_log l m st) = csv_written st"
  "excel_written (add_log l m st) = excel_written st"
  "cohort_calls (add_log l m st) = cohort_calls st"
  "worker_outcomes (add_log l m st) = worker_outcomes st"
  by (simp_all add: add_log_def Let_def)

subsection \<open>Trimmed strings\<close>

lemma dropWhile_hd: "dropWhile P xs \<noteq> [] \<Longrightarrow> \<not> P (hd (dropWhile P xs))"
  by (induction xs) auto

lemma dropWhile_last: "dropWhile P xs \<noteq> [] \<Longrightarrow> last (dropWhile P xs) = last xs"
  by (induction xs) auto

lemma dropWhile_id: "xs \<noteq> [] \<Longrightarrow> \<not> P (hd xs) \<Longrightarrow> dropWhile P xs = xs"
  by (cases xs) auto

lemma py_strip_ends:
  assumes "py_strip s \<noteq> []"
  shows "\<not> py_isspace (hd (py_strip s)) \<and> \<not> py_isspace (last (py_strip s))"
proof -
  let ?d = "dropWhile py_isspace s"
  let ?r = "dropWhile py_isspace (rev ?d)"
  have r: "?r \<noteq> []" using assms by (simp add: py_strip_def)
  have d: "?d \<noteq> []"
  proof
    assume "?d = []"
    then have "?r = []" by (simp only: rev.simps dropWhile.simps)
    with r show False by simp
  qed
  have "hd (py_strip s) = last ?r" using r by (simp add: py_strip_def hd_rev)
  also have "\<dots> = last (rev ?d)" using r by (rule dropWhile_last)
  also have "\<dots> = hd ?d" using d by (simp add: last_rev)
  finally have "\<not> py_isspace (hd (py_strip s))" using dropWhile_hd [OF d] by simp
  moreover have "last (py_strip s) = hd ?r" using r by (simp add: py_strip_def last_rev)
  then have "\<not> py_isspace (last (py_strip s))" using dropWhile_hd [OF r] by simp
  ultimately show ?thesis by simp
qed

lemma py_strip_fixed:
  assumes "t \<noteq> []" "\<not> py_isspace (hd t)" "\<not> py_isspace (last t)"
  shows "py_strip t = t"
proof -
  have "dropWhile py_isspace t = t" using assms by (simp add: dropWhile_id)
  moreover have "dropWhile py_isspace (rev t) = rev t"
    using assms by (simp add: dropWhile_id hd_rev)
  ultimately show ?thesis by (simp add: py_strip_def)
qed

lemma py_strip_idem: "py_strip (py_strip s) = py_strip s"
proof (cases "py_strip s = []")
  case True
  have "py_strip [] = []" by (simp add: py_strip_def)
  with True show ?thesis by simp
next
  case False
  then show ?thesis using py_strip_ends [OF False] by (simp add: py_strip_fixed)
qed

lemma clean_id_strip: "py_strip s \<noteq> [] \<Longrightarrow> clean_id (py_strip s)"
  unfolding clean_id_def
  using py_strip_ends [of s] py_strip_idem [of s]
  by (cases "py_strip s") auto

lemma valid_ids_clean: "u \<in> set (valid_ids cells) \<Longrightarrow> clean_id u"
  by (auto simp: valid_ids_def clean_id_strip)

lemma read_sources_clean:
  assumes "distinct ids" "\<forall>u\<in>set ids. clean_id u"
    and "read_sources ev ps (ids, n, st) = (ids', n', st')"
  shows "distinct ids' \<and> (\<forall>u\<in>set ids'. clean_id u) \<and> user_cache st' = user_cache st"
  using assms
proof (induction ps arbitrary: ids n st)
  case Nil
  then show ?case by simp
next
  case (Cons p ps)
  show ?case
  proof (cases "path_exists ev p")
    case False
    with Cons.prems(3) have
      "read_sources ev ps (ids, n, add_log ''WARNING'' ''CSV file not found'' st) = (ids', n', st')"
      by simp
    from Cons.IH [OF Cons.prems(1,2) this] show ?thesis by simp
  next
    case True
    show ?thesis
    proof (cases "read_csv ev p")
      case (Inl e)
      with True Cons.prems(3) have
        "read_sources ev ps (ids, n, add_log ''ERROR'' ''Error processing file''
            (st\<lparr>csv_reads := csv_reads st @ [p]\<rparr>)) = (ids', n', st')"
        by (simp add: Let_def)
      from Cons.IH [OF Cons.prems(1,2) this] show ?thesis by simp
    next
      case (Inr cells)
      with True Cons.prems(3) have
        "read_sources ev ps (List.union (valid_ids cells) ids, n + 1,
            add_log ''INFO'' ''Processed rows'' (st\<lparr>csv_reads := csv_reads st @ [p]\<rparr>))
           = (ids', n', st')"
        by (simp add: Let_def)
      moreover have "distinct (List.union (valid_ids cells) ids)"
        using Cons.prems(1) by simp
      moreover have "\<forall>u\<in>set (List.union (valid_ids cells) ids). clean_id u"
        using Cons.prems(2) valid_ids_clean by auto
      ultimately show ?thesis using Cons.IH by fastforce
    qed
  qed
qed

lemma cache_clean_new_world: "cache_clean new_world"
  by (simp add: cache_clean_def new_world_def)

text \<open>
  Claim C9: whatever the source files hold (repeated values, blanks, missing values,
  unreadable or missing files), the extracted list has no repetition and every identifier in
  it is clean: not empty, not white space only, and equal to its trimmed form. A result may
  come from the cache, so the statement is for a pipeline whose cache holds what earlier
  extractions stored; the extraction keeps that property and a new pipeline has it.
\<close>

theorem extract_ids_clean:
  assumes "cache_clean st"
  shows "distinct (fst (extract_unique_user_ids ev ps st))
    \<and> (\<forall>u\<in>set (fst (extract_unique_user_ids ev ps st)). clean_id u)
    \<and> cache_clean (snd (extract_unique_user_ids ev ps st))"
proof (cases "user_cache st (sort ps)")
  case (Some cached)
  then show ?thesis using assms
    by (auto simp: extract_unique_user_ids_def cache_clean_def)
next
  case None
  obtain ids n st1 where r: "read_sources ev ps ([], 0, st) = (ids, n, st1)"
    by (cases "read_sources ev ps ([], 0, st)") auto
  from read_sources_clean [OF _ _ r]
  have c: "distinct ids" "\<forall>u\<in>set ids. clean_id u" "user_cache st1 = user_cache st"
    by simp_all
  let ?ids = "filter (\<lambda>uid. uid \<noteq> [] \<and> py_strip uid \<noteq> []) ids"
  have "distinct ?ids" "\<forall>u\<in>set ?ids. clean_id u" using c by auto
  then show ?thesis using None r c(3) assms
    by (auto simp: extract_unique_user_ids_def cache_clean_def Let_def)
qed

theorem extract_ids_clean_witness:
  "cache_clean new_world
   \<and> distinct (fst (extract_unique_user_ids demo_env
         [''data/1_july/premium_packs_with_ad_ids.csv'', ''missing.csv''] new_world))
   \<and> list_all clean_id (fst (extract_unique_user_ids demo_env
         [''data/1_july/premium_packs_with_ad_ids.csv'', ''missing.csv''] new_world))"
  using extract_ids_clean [OF cache_clean_new_world, of demo_env
      "[''data/1_july/premium_packs_with_ad_ids.csv'', ''missing.csv'']"]
  by (simp add: cache_clean_new_world list_all_iff)

lemma demo_extract_value: "fst (extract_unique_user_ids demo_env
         [''data/1_july/premium_packs_with_ad_ids.csv'', ''missing.csv''] new_world) = [''u3'', ''u2'', ''u1'']"
  by (simp add: extract_unique_user_ids_def new_world_def demo_env_def Let_def valid_ids_def py_strip_def py_isspace_def List.union_def List.insert_def add_log_def)

lemma extract_caches_result:
  "user_cache (snd (extract_unique_user_ids ev ps st)) (sort ps)
     = Some (fst (extract_unique_user_ids ev ps st))"
  by (auto simp: extract_unique_user_ids_def Let_def split: option.splits prod.splits)

text \<open>
  Claim C8: extraction is memoised on the sorted tuple of paths. After a call with the paths
  \<open>ps\<close>, from any state, a second call with the same paths in any order (the same sorted
  tuple) returns the result of the first call and leaves the state as it is: no file is
  read again.
\<close>

theorem extract_second_call_hits_cache:
  assumes "mset ps' = mset ps"
  shows "extract_unique_user_ids ev ps' (snd (extract_unique_user_ids ev ps st))
           = extract_unique_user_ids ev ps st
       \<and> csv_reads (snd (extract_unique_user_ids ev ps' (snd (extract_unique_user_ids ev ps st))))
           = csv_reads (snd (extract_unique_user_ids ev ps st))"
proof -
  have "sort ps' = sort ps"
    using assms by (intro properties_for_sort) simp_all
  then have "user_cache (snd (extract_unique_user_ids ev ps st)) (sort ps')
     = Some (fst (extract_unique_user_ids ev ps st))"
    using extract_caches_result [of ev ps st] by simp
  then have "extract_unique_user_ids ev ps' (snd (extract_unique_user_ids ev ps st))
           = extract_unique_user_ids ev ps st"
    by (simp add: extract_unique_user_ids_def [of ev ps'])
  then show ?thesis by simp
qed

theorem extract_second_call_hits_cache_witness:
  "mset [''b.csv'', ''a.csv''] = mset [''a.csv'', ''b.csv'']
   \<and> extract_unique_user_ids demo_env [''b.csv'', ''a.csv'']
        (snd (extract_unique_user_ids demo_env [''a.csv'', ''b.csv''] new_world))
      = extract_unique_user_ids demo_env [''a.csv'', ''b.csv''] new_world"
  using extract_second_call_hits_cache [of "[''b.csv'', ''a.csv'']" "[''a.csv'', ''b.csv'']"
      demo_env new_world]
  by simp

section \<open>Query Batcher\<close>

lemma range_count_step:
  assumes "0 < n" "0 < L"
  shows "(L + n - 1) div n = Suc ((L - n + n - 1) div n)"
proof (cases "L \<le> n")
  case True
  then have a: "L - n + n - 1 = n - 1" by simp
  have "(L + n - 1) div n = 1"
  proof -
    have "L + n - 1 = (L - 1) + n" using assms by simp
    then have "(L + n - 1) div n = ((L - 1) + n) div n" by simp
    also have "\<dots> = (L - 1) div n + 1" using assms by (simp only: div_add_self2)
    also have "(L - 1) div n = 0" using True assms by simp
    finally show ?thesis by simp
  qed
  moreover have "(n - 1) div n = 0" using assms by simp
  ultimately show ?thesis using a by simp
next
  case False
  then have "L + n - 1 = (L - n + n - 1) + n" using assms by simp
  then show ?thesis using assms by (metis div_add_self2 less_numeral_extra(3) Suc_eq_plus1)
qed

lemma slice_list_Nil: "slice_list n [] = []"
  by (cases "n = 0") (simp_all add: slice_list_def py_range_step_def)

lemma slice_list_unfold:
  assumes "0 < n" "xs \<noteq> []"
  shows "slice_list n xs = take n xs # slice_list n (drop n xs)"
proof -
  let ?c = "(length xs - n + n - 1) div n"
  have cnt: "(length xs + n - 1) div n = Suc ?c"
    using range_count_step [OF assms(1), of "length xs"] assms(2) by simp
  have up: "[0..<Suc ?c] = 0 # map Suc [0..<?c]"
    by (simp add: upt_conv_Cons map_Suc_upt del: upt_Suc)
  have dr: "drop (Suc k * n) xs = drop (k * n) (drop n xs)" for k
    by (simp add: add.commute)
  show ?thesis
    unfolding slice_list_def py_range_step_def cnt up
    by (simp add: dr o_def del: upt_Suc mult_Suc)
qed

lemma concat_slice_list: "0 < n \<Longrightarrow> concat (slice_list n xs) = xs"
proof (induction xs rule: length_induct)
  case (1 xs)
  show ?case
  proof (cases "xs = []")
    case True
    then show ?thesis by (simp add: slice_list_Nil)
  next
    case False
    then have "length (drop n xs) < length xs" using 1(2) by simp
    with 1 have "concat (slice_list n (drop n xs)) = drop n xs" by blast
    then show ?thesis using slice_list_unfold [OF 1(2) False] by simp
  qed
qed

lemma slice_list_parts:
  "0 < n \<Longrightarrow> c \<in> set (slice_list n xs) \<Longrightarrow> c \<noteq> [] \<and> length c \<le> n"
proof (induction xs rule: length_induct)
  case (1 xs)
  show ?case
  proof (cases "xs = []")
    case True
    with 1(3) show ?thesis by (simp add: slice_list_Nil)
  next
    case False
    have lt: "length (drop n xs) < length xs" using False 1(2) by simp
    from 1(3) slice_list_unfold [OF 1(2) False]
    consider "c = take n xs" | "c \<in> set (slice_list n (drop n xs))" by auto
    then show ?thesis
    proof cases
      case 1
      then show ?thesis using False \<open>0 < n\<close> by simp
    next
      case 2
      with 1(1) lt \<open>0 < n\<close> show ?thesis by blast
    qed
  qed
qed

lemma query_chunks_result:
  assumes "has_client st"
  shows "has_client (snd (query_chunks ev s e r chunks (acc, st)))
    \<and> bq_calls (snd (query_chunks ev s e r chunks (acc, st)))
        = bq_calls st @ map (chunk_query s e r) chunks
    \<and> fst (query_chunks ev s e r chunks (acc, st))
        = acc @ filter (\<lambda>df. df \<noteq> []) (map (\<lambda>c. chunk_rows ev (chunk_query s e r c)) chunks)
    \<and> csv_written (snd (query_chunks ev s e r chunks (acc, st))) = csv_written st
    \<and> user_cache (snd (query_chunks ev s e r chunks (acc, st))) = user_cache st"
  using assms
proof (induction chunks arbitrary: acc st)
  case Nil
  then show ?case by simp
next
  case (Cons c cs)
  let ?q = "chunk_query s e r c"
  let ?st2 = "(add_log ''INFO'' ''Running query chunk'' st)\<lparr>bq_calls := bq_calls st @ [?q]\<rparr>"
  show ?case
  proof (cases "run_bq ev ?q")
    case (Inl x)
    have h: "has_client (add_log ''ERROR'' ''Error in query chunk'' ?st2)"
      using Cons.prems by simp
    show ?thesis
      using Cons.IH [OF h, of acc] Cons.prems Inl
      by (simp add: chunk_query_def chunk_rows_def Let_def)
  next
    case (Inr df)
    have h: "has_client ?st2" using Cons.prems by simp
    show ?thesis
      using Cons.IH [OF h, of "if df \<noteq> [] then acc @ [df] else acc"] Cons.prems Inr
      by (simp add: chunk_query_def chunk_rows_def Let_def)
  qed
qed

lemma concat_filter_nonempty: "concat (filter (\<lambda>x. x \<noteq> []) xss) = concat xss"
  by (induction xss) auto

text \<open>
  Claim C6, for a positive chunk size on a pipeline whose client is initialised. The list of
  slices \<^verbatim>\<open>run_query\<close> walks through is a partition of the identifier list into
  consecutive chunks, none empty and none longer than the chunk size; the backend is called
  once for each chunk, in that order; the result is the concatenation, in chunk order, of the
  rows of the chunks whose call succeeded; for an empty identifier list it is the empty frame
  with no backend call, and when every chunk fails it is the empty frame, not an exception.
\<close>

theorem run_query_chunks:
  assumes "0 < chunk_size cfg" and "has_client st"
  shows "concat (slice_list (nat (chunk_size cfg)) user_ids) = user_ids
    \<and> (\<forall>c\<in>set (slice_list (nat (chunk_size cfg)) user_ids).
          c \<noteq> [] \<and> int (length c) \<le> chunk_size cfg)
    \<and> bq_calls (snd (run_query cfg ev user_ids s e r st))
        = bq_calls st @ map (chunk_query s e r) (slice_list (nat (chunk_size cfg)) user_ids)
    \<and> fst (run_query cfg ev user_ids s e r st)
        = Inr (concat (map (\<lambda>c. chunk_rows ev (chunk_query s e r c))
                 (slice_list (nat (chunk_size cfg)) user_ids)))
    \<and> (user_ids = [] \<longrightarrow> fst (run_query cfg ev user_ids s e r st) = Inr []
          \<and> bq_calls (snd (run_query cfg ev user_ids s e r st)) = bq_calls st)
    \<and> ((\<forall>c\<in>set (slice_list (nat (chunk_size cfg)) user_ids).
           isl (run_bq ev (chunk_query s e r c)))
         \<longrightarrow> fst (run_query cfg ev user_ids s e r st) = Inr [])"
proof -
  let ?n = "nat (chunk_size cfg)"
  let ?chunks = "slice_list ?n user_ids"
  let ?rows = "map (\<lambda>c. chunk_rows ev (chunk_query s e r c)) ?chunks"
  have n: "0 < ?n" using assms(1) by simp
  have sl: "slices (chunk_size cfg) user_ids = Inr ?chunks"
    using assms(1) by (simp add: slices_def)
  have a: "concat ?chunks = user_ids" by (rule concat_slice_list [OF n])
  have b: "\<forall>c\<in>set ?chunks. c \<noteq> [] \<and> int (length c) \<le> chunk_size cfg"
    using slice_list_parts [OF n] assms(1) by fastforce
  obtain res st1 where qc: "query_chunks ev s e r ?chunks ([], st) = (res, st1)"
    by (cases "query_chunks ev s e r ?chunks ([], st)") auto
  from query_chunks_result [OF assms(2), of ev s e r ?chunks "[]"] qc
  have q: "bq_calls st1 = bq_calls st @ map (chunk_query s e r) ?chunks"
    "res = filter (\<lambda>df. df \<noteq> []) ?rows"
    by simp_all
  have cres: "concat res = concat ?rows" by (simp add: q(2) concat_filter_nonempty)
  have res_nil: "res = [] \<Longrightarrow> concat ?rows = []" using cres by simp
  have c: "bq_calls (snd (run_query cfg ev user_ids s e r st))
        = bq_calls st @ map (chunk_query s e r) ?chunks"
    by (cases "user_ids = []") (simp_all add: run_query_def sl qc q(1) slice_list_Nil)
  have d: "fst (run_query cfg ev user_ids s e r st) = Inr (concat ?rows)"
  proof (cases "user_ids = []")
    case True
    then show ?thesis by (simp add: run_query_def slice_list_Nil)
  next
    case False
    then show ?thesis using cres res_nil
      by (cases "res = []") (simp_all add: run_query_def sl qc)
  qed
  have e1: "user_ids = [] \<longrightarrow> fst (run_query cfg ev user_ids s e r st) = Inr []
          \<and> bq_calls (snd (run_query cfg ev user_ids s e r st)) = bq_calls st"
    by (simp add: run_query_def)
  have f: "(\<forall>c\<in>set ?chunks. isl (run_bq ev (chunk_query s e r c)))
         \<longrightarrow> fst (run_query cfg ev user_ids s e r st) = Inr []"
  proof
    assume all: "\<forall>c\<in>set ?chunks. isl (run_bq ev (chunk_query s e r c))"
    have "\<forall>c\<in>set ?chunks. chunk_rows ev (chunk_query s e r c) = []"
      using all by (auto simp: chunk_rows_def isl_def)
    then have "concat ?rows = []" by simp
    with d show "fst (run_query cfg ev user_ids s e r st) = Inr []" by simp
  qed
  from a b c d e1 f show ?thesis by blast
qed

lemma demo_slices: "slice_list 2 [''a'', ''b'', ''c''] = [[''a'', ''b''], [''c'']]"
  by code_simp

theorem run_query_chunks_witness:
  "slice_list 2 [''a'', ''b'', ''c''] = [[''a'', ''b''], [''c'']]
   \<and> bq_calls (snd (run_query ((default_config ''data'' ''out'')\<lparr>chunk_size := 2\<rparr>) demo_env
         [''a'', ''b'', ''c''] ''2025-07-01'' ''2025-07-03'' 87 (new_world\<lparr>has_client := True\<rparr>)))
       = [chunk_query ''2025-07-01'' ''2025-07-03'' 87 [''a'', ''b''],
          chunk_query ''2025-07-01'' ''2025-07-03'' 87 [''c'']]
   \<and> fst (run_query ((default_config ''data'' ''out'')\<lparr>chunk_size := 2\<rparr>) demo_env
         [''a'', ''b'', ''c''] ''2025-07-01'' ''2025-07-03'' 87 (new_world\<lparr>has_client := True\<rparr>))
       = Inr (map (\<lambda>u. \<lparr>event_date = ''2025-07-01'', product_id = ''pack'', product_value = 1,
                           product_value_INR = 100, user_pseudo_id = u\<rparr>) [''a'', ''b'', ''c''])"
  using run_query_chunks [of "(default_config ''data'' ''out'')\<lparr>chunk_size := 2\<rparr>"
      "new_world\<lparr>has_client := True\<rparr>" "[''a'', ''b'', ''c'']" demo_env
      "''2025-07-01''" "''2025-07-03''" 87]
  by (simp add: default_config_def new_world_def demo_slices chunk_rows_def chunk_query_def
      demo_env_def)

section \<open>Exchange Rate Resolver\<close>

lemma exchange_rate_body_value:
  "fst (exchange_rate_body cfg ev s e st) = resolved_rate cfg ev s e"
  by (simp add: exchange_rate_body_def resolved_rate_def Let_def split: sum.splits)

lemma exchange_rate_body_frame:
  "rate_cache (snd (exchange_rate_body cfg ev s e st)) = rate_cache st"
  "\<not> use_live_rates cfg \<Longrightarrow> http_calls (snd (exchange_rate_body cfg ev s e st)) = http_calls st"
  by (simp_all add: exchange_rate_body_def Let_def split: sum.splits)

lemma get_exchange_rate_value:
  assumes "rate_cache_sound cfg ev st"
  shows "fst (get_exchange_rate cfg ev s e st) = resolved_rate cfg ev s e
    \<and> rate_cache_sound cfg ev (snd (get_exchange_rate cfg ev s e st))
    \<and> (\<not> use_live_rates cfg \<longrightarrow>
          http_calls (snd (get_exchange_rate cfg ev s e st)) = http_calls st)"
proof (cases "map_of (rate_cache st) (s, e)")
  case (Some r)
  then have "((s, e), r) \<in> set (rate_cache st)" by (rule map_of_SomeD)
  with assms have r: "r = resolved_rate cfg ev s e"
    unfolding rate_cache_sound_def by fastforce
  have "rate_cache_sound cfg ev
     (st\<lparr>rate_cache := ((s, e), r) # filter (\<lambda>kv. fst kv \<noteq> (s, e)) (rate_cache st)\<rparr>)"
    using assms r unfolding rate_cache_sound_def by auto
  then show ?thesis using Some r by (simp add: get_exchange_rate_def)
next
  case None
  obtain r st1 where b: "exchange_rate_body cfg ev s e st = (r, st1)"
    by (cases "exchange_rate_body cfg ev s e st") auto
  have r: "r = resolved_rate cfg ev s e"
    using exchange_rate_body_value [of cfg ev s e st] b by simp
  have c: "rate_cache st1 = rate_cache st"
    using exchange_rate_body_frame(1) [of cfg ev s e st] b by simp
  have h: "\<not> use_live_rates cfg \<Longrightarrow> http_calls st1 = http_calls st"
    using exchange_rate_body_frame(2) [of cfg ev s e st] b by simp
  have "rate_cache_sound cfg ev (st1\<lparr>rate_cache := take 32 (((s, e), r) # rate_cache st1)\<rparr>)"
    unfolding rate_cache_sound_def
  proof (intro allI impI)
    fix k x
    assume "(k, x) \<in> set (rate_cache (st1\<lparr>rate_cache := take 32 (((s, e), r) # rate_cache st1)\<rparr>))"
    then have "(k, x) \<in> set (((s, e), r) # rate_cache st)"
      using c by (auto dest: in_set_takeD)
    then show "x = resolved_rate cfg ev (fst k) (snd k)"
      using assms r unfolding rate_cache_sound_def by auto
  qed
  then show ?thesis using None b r h by (simp add: get_exchange_rate_def)
qed

lemma rate_cache_sound_new_world: "rate_cache_sound cfg ev new_world"
  by (simp add: rate_cache_sound_def new_world_def)

lemma py_sum_numbers: "py_sum (map JNum rs) acc = Inr (acc + sum_list rs)"
  by (induction rs arbitrary: acc) (simp_all add: json_number_def add.assoc)

lemma live_rate_average:
  assumes "status_code resp = 200" "json_body resp = Inr (JObj body)"
    "map_of body ''rates'' = Some (JObj days)" "inr_values (map snd days) = Inr (map JNum rs)"
  shows "live_rate (Inr resp)
    = (if rs = [] then Inr (Inl ''No INR exchange rate data found'')
       else Inr (Inr (sum_list rs / real (length rs))))"
  using assms by (simp add: live_rate_def get_rates_def dict_values_def py_sum_numbers)

lemma live_rate_cases:
  "live_rate answer = Inr (Inr a) \<Longrightarrow>
     \<exists>resp data rates rs vals total. answer = Inr resp \<and> status_code resp = 200
       \<and> json_body resp = Inr data \<and> get_rates data = Inr rates \<and> dict_values rates = Inr rs
       \<and> inr_values rs = Inr vals \<and> vals \<noteq> [] \<and> py_sum vals 0 = Inr total
       \<and> a = total / real (length vals)"
  by (auto simp: live_rate_def split: sum.splits if_splits)

text \<open>
  Claim C5. The resolver is a total function of the answer of the rate service: nothing it
  does raises. On a pipeline whose rate cache holds rates computed under this configuration
  (true of a new pipeline, and kept by every call): with live rates disabled it returns the
  fallback rate and makes no call to the rate service; with live rates enabled it returns
  the fallback rate when the lookup raises anywhere in the \<^verbatim>\<open>try\<close> block (a network
  error in particular), when the status is not 200, and when there is no INR rate; and when
  the service returns the INR rates \<open>rs\<close>, not empty, it returns their average. In every
  case the result is the fallback rate or the average of the INR values of the response.
\<close>

theorem get_exchange_rate_never_raises:
  assumes "rate_cache_sound cfg ev st"
  shows "(\<not> use_live_rates cfg \<longrightarrow>
            fst (get_exchange_rate cfg ev s e st) = fallback_rate cfg
          \<and> http_calls (snd (get_exchange_rate cfg ev s e st)) = http_calls st)
    \<and> (use_live_rates cfg \<and> isl (live_rate (http_get ev (rate_url s e))) \<longrightarrow>
            fst (get_exchange_rate cfg ev s e st) = fallback_rate cfg)
    \<and> (use_live_rates cfg \<and> isl (http_get ev (rate_url s e)) \<longrightarrow>
            fst (get_exchange_rate cfg ev s e st) = fallback_rate cfg)
    \<and> (\<forall>resp. use_live_rates cfg \<and> http_get ev (rate_url s e) = Inr resp
               \<and> status_code resp \<noteq> 200 \<longrightarrow>
            fst (get_exchange_rate cfg ev s e st) = fallback_rate cfg)
    \<and> (\<forall>resp body days rs. use_live_rates cfg \<and> http_get ev (rate_url s e) = Inr resp
               \<and> status_code resp = 200 \<and> json_body resp = Inr (JObj body)
               \<and> map_of body ''rates'' = Some (JObj days)
               \<and> inr_values (map snd days) = Inr (map JNum rs) \<longrightarrow>
            fst (get_exchange_rate cfg ev s e st)
              = (if rs = [] then fallback_rate cfg else sum_list rs / real (length rs)))
    \<and> (fst (get_exchange_rate cfg ev s e st) = fallback_rate cfg
        \<or> (\<exists>resp data rates rs vals total.
              http_get ev (rate_url s e) = Inr resp \<and> status_code resp = 200
              \<and> json_body resp = Inr data \<and> get_rates data = Inr rates
              \<and> dict_values rates = Inr rs \<and> inr_values rs = Inr vals \<and> vals \<noteq> []
              \<and> py_sum vals 0 = Inr total
              \<and> fst (get_exchange_rate cfg ev s e st) = total / real (length vals)))
    \<and> rate_cache_sound cfg ev (snd (get_exchange_rate cfg ev s e st))"
proof -
  let ?R = "get_exchange_rate cfg ev s e st"
  let ?A = "http_get ev (rate_url s e)"
  have v: "fst ?R = resolved_rate cfg ev s e"
    and inv: "rate_cache_sound cfg ev (snd ?R)"
    and h: "\<not> use_live_rates cfg \<longrightarrow> http_calls (snd ?R) = http_calls st"
    using get_exchange_rate_value [OF assms, of s e] by simp_all
  have c1: "\<not> use_live_rates cfg \<longrightarrow> fst ?R = fallback_rate cfg \<and> http_calls (snd ?R) = http_calls st"
    using v h by (simp add: resolved_rate_def)
  have c2: "use_live_rates cfg \<and> isl (live_rate ?A) \<longrightarrow> fst ?R = fallback_rate cfg"
    using v by (auto simp: resolved_rate_def isl_def)
  have c3: "use_live_rates cfg \<and> isl ?A \<longrightarrow> fst ?R = fallback_rate cfg"
    using v by (auto simp: resolved_rate_def isl_def live_rate_def)
  have c4: "\<forall>resp. use_live_rates cfg \<and> ?A = Inr resp \<and> status_code resp \<noteq> 200 \<longrightarrow>
      fst ?R = fallback_rate cfg"
    using v by (auto simp: resolved_rate_def live_rate_def)
  have c5: "\<forall>resp body days rs. use_live_rates cfg \<and> ?A = Inr resp
               \<and> status_code resp = 200 \<and> json_body resp = Inr (JObj body)
               \<and> map_of body ''rates'' = Some (JObj days)
               \<and> inr_values (map snd days) = Inr (map JNum rs) \<longrightarrow>
            fst ?R = (if rs = [] then fallback_rate cfg else sum_list rs / real (length rs))"
  proof (intro allI impI)
    fix resp body days rs
    assume a: "use_live_rates cfg \<and> ?A = Inr resp
               \<and> status_code resp = 200 \<and> json_body resp = Inr (JObj body)
               \<and> map_of body ''rates'' = Some (JObj days)
               \<and> inr_values (map snd days) = Inr (map JNum rs)"
    then have "live_rate ?A = (if rs = [] then Inr (Inl ''No INR exchange rate data found'')
       else Inr (Inr (sum_list rs / real (length rs))))"
      using live_rate_average [of resp body days rs] by simp
    then show "fst ?R = (if rs = [] then fallback_rate cfg else sum_list rs / real (length rs))"
      using v a by (simp add: resolved_rate_def)
  qed
  have c6: "fst ?R = fallback_rate cfg
        \<or> (\<exists>resp data rates rs vals total.
              ?A = Inr resp \<and> status_code resp = 200
              \<and> json_body resp = Inr data \<and> get_rates data = Inr rates
              \<and> dict_values rates = Inr rs \<and> inr_values rs = Inr vals \<and> vals \<noteq> []
              \<and> py_sum vals 0 = Inr total
              \<and> fst ?R = total / real (length vals))"
  proof (cases "use_live_rates cfg")
    case False
    then show ?thesis using c1 by simp
  next
    case True
    show ?thesis
    proof (cases "live_rate ?A")
      case (Inl x)
      then show ?thesis using v True by (simp add: resolved_rate_def)
    next
      case (Inr y)
      show ?thesis
      proof (cases y)
        case (Inl w)
        then show ?thesis using v True Inr by (simp add: resolved_rate_def)
      next
        case (Inr a)
        with \<open>live_rate ?A = Inr y\<close> have la: "live_rate ?A = Inr (Inr a)" by simp
        then have "fst ?R = a" using v True by (simp add: resolved_rate_def)
        with live_rate_cases [OF la] show ?thesis by blast
      qed
    qed
  qed
  from c1 c2 c3 c4 c5 c6 inv show ?thesis by blast
qed

theorem get_exchange_rate_never_raises_witness:
  "rate_cache_sound (default_config ''data'' ''out'') demo_env new_world
   \<and> fst (get_exchange_rate (default_config ''data'' ''out'') demo_env
            ''2025-07-01'' ''2025-07-02'' new_world) = 87
   \<and> fst (get_exchange_rate ((default_config ''data'' ''out'')\<lparr>use_live_rates := False\<rparr>) demo_env
            ''2025-07-01'' ''2025-07-02'' new_world) = 86191 / 1000
   \<and> http_calls (snd (get_exchange_rate
            ((default_config ''data'' ''out'')\<lparr>use_live_rates := False\<rparr>) demo_env
            ''2025-07-01'' ''2025-07-02'' new_world)) = []"
proof -
  let ?cfg = "default_config ''data'' ''out''"
  let ?off = "?cfg\<lparr>use_live_rates := False\<rparr>"
  let ?resp = "\<lparr>status_code = 200, json_body = Inr demo_rates\<rparr>"
  let ?days = "[(''2025-07-01'', JObj [(''INR'', JNum 86)]), (''2025-07-02'', JObj [(''INR'', JNum 88)])]"
  let ?body = "[(''amount'', JNum 1), (''base'', JStr ''USD''), (''rates'', JObj ?days)]"
  have live: "use_live_rates ?cfg" "\<not> use_live_rates ?off"
    "fallback_rate ?off = 86191 / 1000"
    by (simp_all add: default_config_def)
  have a: "http_get demo_env (rate_url ''2025-07-01'' ''2025-07-02'') = Inr ?resp"
    by (simp add: demo_env_def)
  have b: "status_code ?resp = 200" "json_body ?resp = Inr (JObj ?body)"
    "map_of ?body ''rates'' = Some (JObj ?days)"
    "inr_values (map snd ?days) = Inr (map JNum [86, 88])"
    by (simp_all add: demo_rates_def inr_of_rate_def)
  note on = get_exchange_rate_never_raises [OF rate_cache_sound_new_world,
      of ?cfg demo_env "''2025-07-01''" "''2025-07-02''"]
  note off = get_exchange_rate_never_raises [OF rate_cache_sound_new_world,
      of ?off demo_env "''2025-07-01''" "''2025-07-02''"]
  have "fst (get_exchange_rate ?cfg demo_env ''2025-07-01'' ''2025-07-02'' new_world)
      = (if [86, 88] = ([] :: real list) then fallback_rate ?cfg
         else sum_list [86, 88] / real (length [86 :: real, 88]))"
    using on [THEN conjunct2, THEN conjunct2, THEN conjunct2, THEN conjunct2, THEN conjunct1,
        rule_format, of ?resp ?body ?days "[86, 88]"] live(1) a b
    by blast
  then have r1: "fst (get_exchange_rate ?cfg demo_env ''2025-07-01'' ''2025-07-02'' new_world) = 87"
    by simp
  have r2: "fst (get_exchange_rate ?off demo_env ''2025-07-01'' ''2025-07-02'' new_world)
        = 86191 / 1000
      \<and> http_calls (snd (get_exchange_rate ?off demo_env ''2025-07-01'' ''2025-07-02'' new_world))
        = []"
    using off [THEN conjunct1] live(2,3) by (simp add: new_world_def)
  show ?thesis using r1 r2 rate_cache_sound_new_world by simp
qed

section \<open>Pack Processor\<close>

subsection \<open>What each step leaves unchanged\<close>

lemma read_sources_frame:
  "read_sources ev ps (ids, n, st) = (ids', n', st') \<Longrightarrow>
     has_client st' = has_client st \<and> bq_calls st' = bq_calls st
     \<and> csv_written st' = csv_written st \<and> excel_written st' = excel_written st
     \<and> cohort_calls st' = cohort_calls st \<and> worker_outcomes st' = worker_outcomes st
     \<and> rate_cache st' = rate_cache st"
proof (induction ps arbitrary: ids n st)
  case Nil
  then show ?case by simp
next
  case (Cons p ps)
  show ?case
  proof (cases "path_exists ev p")
    case False
    with Cons.prems have
      "read_sources ev ps (ids, n, add_log ''WARNING'' ''CSV file not found'' st) = (ids', n', st')"
      by simp
    from Cons.IH [OF this] show ?thesis by simp
  next
    case True
    show ?thesis
    proof (cases "read_csv ev p")
      case (Inl e)
      with True Cons.prems have
        "read_sources ev ps (ids, n, add_log ''ERROR'' ''Error processing file''
            (st\<lparr>csv_reads := csv_reads st @ [p]\<rparr>)) = (ids', n', st')"
        by (simp add: Let_def)
      from Cons.IH [OF this] show ?thesis by simp
    next
      case (Inr cells)
      with True Cons.prems have
        "read_sources ev ps (List.union (valid_ids cells) ids, n + 1,
            add_log ''INFO'' ''Processed rows'' (st\<lparr>csv_reads := csv_reads st @ [p]\<rparr>))
           = (ids', n', st')"
        by (simp add: Let_def)
      from Cons.IH [OF this] show ?thesis by simp
    qed
  qed
qed

lemma extract_frame:
  "has_client (snd (extract_unique_user_ids ev ps st)) = has_client st"
  "bq_calls (snd (extract_unique_user_ids ev ps st)) = bq_calls st"
  "csv_written (snd (extract_unique_user_ids ev ps st)) = csv_written st"
  "excel_written (snd (extract_unique_user_ids ev ps st)) = excel_written st"
  "cohort_calls (snd (extract_unique_user_ids ev ps st)) = cohort_calls st"
  "worker_outcomes (snd (extract_unique_user_ids ev ps st)) = worker_outcomes st"
  "rate_cache (snd (extract_unique_user_ids ev ps st)) = rate_cache st"
proof -
  obtain ids n st1 where r: "read_sources ev ps ([], 0, st) = (ids, n, st1)"
    by (cases "read_sources ev ps ([], 0, st)") auto
  note f = read_sources_frame [OF r]
  show "has_client (snd (extract_unique_user_ids ev ps st)) = has_client st"
    "bq_calls (snd (extract_unique_user_ids ev ps st)) = bq_calls st"
    "csv_written (snd (extract_unique_user_ids ev ps st)) = csv_written st"
    "excel_written (snd (extract_unique_user_ids ev ps st)) = excel_written st"
    "cohort_calls (snd (extract_unique_user_ids ev ps st)) = cohort_calls st"
    "worker_outcomes (snd (extract_unique_user_ids ev ps st)) = worker_outcomes st"
    "rate_cache (snd (extract_unique_user_ids ev ps st)) = rate_cache st"
    using f r by (simp_all add: extract_unique_user_ids_def Let_def split: option.splits)
qed

subsection \<open>The identifiers extracted are those of the files\<close>

lemma read_sources_ids:
  "read_sources ev ps (ids, n, st) = (ids', n', st') \<Longrightarrow>
     set ids' = set ids \<union> (\<Union>p\<in>set ps. set (file_ids ev p))"
proof (induction ps arbitrary: ids n st)
  case Nil
  then show ?case by simp
next
  case (Cons p ps)
  show ?case
  proof (cases "path_exists ev p")
    case False
    with Cons.prems have
      "read_sources ev ps (ids, n, add_log ''WARNING'' ''CSV file not found'' st) = (ids', n', st')"
      by simp
    from Cons.IH [OF this]
    have "set ids' = set ids \<union> (\<Union>p\<in>set ps. set (file_ids ev p))" .
    moreover have "file_ids ev p = []" using False by (simp add: file_ids_def)
    ultimately show ?thesis by auto
  next
    case True
    show ?thesis
    proof (cases "read_csv ev p")
      case (Inl e)
      with True Cons.prems have
        "read_sources ev ps (ids, n, add_log ''ERROR'' ''Error processing file''
            (st\<lparr>csv_reads := csv_reads st @ [p]\<rparr>)) = (ids', n', st')"
        by (simp add: Let_def)
      from Cons.IH [OF this]
      have "set ids' = set ids \<union> (\<Union>p\<in>set ps. set (file_ids ev p))" .
      moreover have "file_ids ev p = []" using True Inl by (simp add: file_ids_def)
      ultimately show ?thesis by auto
    next
      case (Inr cells)
      with True Cons.prems have
        "read_sources ev ps (List.union (valid_ids cells) ids, n + 1,
            add_log ''INFO'' ''Processed rows'' (st\<lparr>csv_reads := csv_reads st @ [p]\<rparr>))
           = (ids', n', st')"
        by (simp add: Let_def)
      from Cons.IH [OF this]
      have "set ids' = set (List.union (valid_ids cells) ids)
          \<union> (\<Union>p\<in>set ps. set (file_ids ev p))" .
      moreover have "file_ids ev p = valid_ids cells" using True Inr by (simp add: file_ids_def)
      ultimately show ?thesis by auto
    qed
  qed
qed

lemma file_ids_clean:
  assumes "u \<in> set (file_ids ev p)"
  shows "clean_id u"
proof (cases "path_exists ev p")
  case False
  then show ?thesis using assms by (simp add: file_ids_def)
next
  case True
  show ?thesis
  proof (cases "read_csv ev p")
    case (Inl e)
    then show ?thesis using assms True by (simp add: file_ids_def)
  next
    case (Inr cells)
    then have "u \<in> set (valid_ids cells)" using assms True by (simp add: file_ids_def)
    then show ?thesis by (rule valid_ids_clean)
  qed
qed

lemma extract_sound:
  assumes "cache_sound ev st"
  shows "set (fst (extract_unique_user_ids ev ps st)) = (\<Union>p\<in>set ps. set (file_ids ev p))
    \<and> cache_sound ev (snd (extract_unique_user_ids ev ps st))"
proof (cases "user_cache st (sort ps)")
  case (Some cached)
  then have "set cached = (\<Union>p\<in>set (sort ps). set (file_ids ev p))"
    using assms unfolding cache_sound_def by blast
  then have "set cached = (\<Union>p\<in>set ps. set (file_ids ev p))" by simp
  moreover have "extract_unique_user_ids ev ps st = (cached, st)"
    using Some by (simp add: extract_unique_user_ids_def)
  ultimately show ?thesis using assms by simp
next
  case None
  obtain ids n st1 where r: "read_sources ev ps ([], 0, st) = (ids, n, st1)"
    by (cases "read_sources ev ps ([], 0, st)") auto
  have i: "set ids = (\<Union>p\<in>set ps. set (file_ids ev p))"
    using read_sources_ids [OF r] by simp
  have c: "user_cache st1 = user_cache st"
    using read_sources_clean [OF _ _ r] by simp
  let ?ids = "filter (\<lambda>uid. uid \<noteq> [] \<and> py_strip uid \<noteq> []) ids"
  have "\<forall>u\<in>set ids. clean_id u" using i file_ids_clean by blast
  then have "\<forall>u\<in>set ids. u \<noteq> [] \<and> py_strip u \<noteq> []" by (auto simp: clean_id_def)
  then have k: "?ids = ids" by (simp add: filter_id_conv)
  have "cache_sound ev (add_log ''INFO'' ''Extracted unique user IDs''
          (st1\<lparr>user_cache := (user_cache st1)(sort ps \<mapsto> ?ids)\<rparr>))"
    using assms c i k unfolding cache_sound_def by auto
  then show ?thesis using None r i k
    by (simp add: extract_unique_user_ids_def Let_def)
qed

lemma cache_sound_new_world: "cache_sound ev new_world"
  by (simp add: cache_sound_def new_world_def)

lemma read_sources_state_irrelevant:
  "fst (read_sources ev ps (ids, n, st)) = fst (read_sources ev ps (ids, n, st'))"
  by (induction ps arbitrary: ids n st st') (auto simp: Let_def split: sum.splits)

lemma extract_log_irrelevant:
  "fst (extract_unique_user_ids ev ps (add_log l m st)) = fst (extract_unique_user_ids ev ps st)"
proof -
  have "fst (read_sources ev ps ([], 0, add_log l m st)) = fst (read_sources ev ps ([], 0, st))"
    by (rule read_sources_state_irrelevant)
  then show ?thesis
    by (auto simp: extract_unique_user_ids_def Let_def split: option.splits prod.splits)
qed

lemma cache_sound_add_log: "cache_sound ev (add_log l m st) = cache_sound ev st"
  by (simp add: cache_sound_def)

lemma process_pack_no_ids:
  assumes "fst (extract_unique_user_ids ev csv_paths st) = []"
  shows "fst (process_pack cfg ev pack_name csv_paths s e r out st) = Inr 0
    \<and> bq_calls (snd (process_pack cfg ev pack_name csv_paths s e r out st)) = bq_calls st
    \<and> csv_written (snd (process_pack cfg ev pack_name csv_paths s e r out st)) = csv_written st"
proof -
  let ?st0 = "add_log ''INFO'' ''Processing pack'' st"
  obtain ids st1 where x: "extract_unique_user_ids ev csv_paths ?st0 = (ids, st1)"
    by (cases "extract_unique_user_ids ev csv_paths ?st0") auto
  have "ids = []" using x extract_log_irrelevant [of ev csv_paths] assms
    by (metis fst_conv)
  moreover have "bq_calls st1 = bq_calls st" "csv_written st1 = csv_written st"
    using extract_frame(2,3) [of ev csv_paths ?st0] x by simp_all
  ultimately show ?thesis using x by (simp add: process_pack_def)
qed

lemma get_date_range_state:
  "\<exists>l m. snd (get_date_range cfg ev label st) = add_log l m st"
  by (auto simp: get_date_range_def split: sum.splits prod.splits)

lemma get_exchange_rate_frame:
  "has_client (snd (get_exchange_rate cfg ev s e st)) = has_client st"
  "bq_calls (snd (get_exchange_rate cfg ev s e st)) = bq_calls st"
  "csv_written (snd (get_exchange_rate cfg ev s e st)) = csv_written st"
  "excel_written (snd (get_exchange_rate cfg ev s e st)) = excel_written st"
  "cohort_calls (snd (get_exchange_rate cfg ev s e st)) = cohort_calls st"
  "worker_outcomes (snd (get_exchange_rate cfg ev s e st)) = worker_outcomes st"
  "user_cache (snd (get_exchange_rate cfg ev s e st)) = user_cache st"
  by (simp_all add: get_exchange_rate_def exchange_rate_body_def Let_def
      split: option.splits sum.splits prod.splits)

lemma query_chunks_frame:
  "excel_written (snd (query_chunks ev s e r chunks (acc, st))) = excel_written st
   \<and> cohort_calls (snd (query_chunks ev s e r chunks (acc, st))) = cohort_calls st
   \<and> worker_outcomes (snd (query_chunks ev s e r chunks (acc, st))) = worker_outcomes st
   \<and> has_client (snd (query_chunks ev s e r chunks (acc, st))) = has_client st"
  by (induction chunks arbitrary: acc st) (simp_all add: Let_def split: sum.splits)

lemma run_query_frame:
  "excel_written (snd (run_query cfg ev ids s e r st)) = excel_written st
   \<and> cohort_calls (snd (run_query cfg ev ids s e r st)) = cohort_calls st
   \<and> worker_outcomes (snd (run_query cfg ev ids s e r st)) = worker_outcomes st
   \<and> has_client (snd (run_query cfg ev ids s e r st)) = has_client st"
proof (cases "ids = []")
  case True
  then show ?thesis by (simp add: run_query_def)
next
  case False
  show ?thesis
  proof (cases "slices (chunk_size cfg) ids")
    case (Inl x)
    then show ?thesis using False by (simp add: run_query_def)
  next
    case (Inr chunks)
    obtain res st1 where q: "query_chunks ev s e r chunks ([], st) = (res, st1)"
      by (cases "query_chunks ev s e r chunks ([], st)") auto
    from query_chunks_frame [of ev s e r chunks "[]" st] q
    show ?thesis using False Inr by (simp add: run_query_def)
  qed
qed

lemma query_batches_frame:
  "excel_written (snd (query_batches cfg ev s e r batches (acc, st))) = excel_written st
   \<and> cohort_calls (snd (query_batches cfg ev s e r batches (acc, st))) = cohort_calls st
   \<and> worker_outcomes (snd (query_batches cfg ev s e r batches (acc, st))) = worker_outcomes st
   \<and> has_client (snd (query_batches cfg ev s e r batches (acc, st))) = has_client st"
proof (induction batches arbitrary: acc st)
  case Nil
  show ?case by simp
next
  case (Cons b bs)
  obtain out st1 where q: "run_query cfg ev b s e r st = (out, st1)"
    by (cases "run_query cfg ev b s e r st") auto
  from run_query_frame [of cfg ev b s e r st] q
  have f: "excel_written st1 = excel_written st" "cohort_calls st1 = cohort_calls st"
    "worker_outcomes st1 = worker_outcomes st" "has_client st1 = has_client st"
    by simp_all
  show ?case
  proof (cases out)
    case (Inl x)
    then show ?thesis using q f by simp
  next
    case (Inr df)
    then show ?thesis
      using q f Cons.IH [of "if df \<noteq> [] then acc @ [df] else acc" st1] by simp
  qed
qed

lemma process_pack_frame:
  "excel_written (snd (process_pack cfg ev pn ps s e r out st)) = excel_written st
   \<and> cohort_calls (snd (process_pack cfg ev pn ps s e r out st)) = cohort_calls st
   \<and> worker_outcomes (snd (process_pack cfg ev pn ps s e r out st)) = worker_outcomes st
   \<and> has_client (snd (process_pack cfg ev pn ps s e r out st)) = has_client st"
proof -
  let ?st0 = "add_log ''INFO'' ''Processing pack'' st"
  obtain ids st1 where x: "extract_unique_user_ids ev ps ?st0 = (ids, st1)"
    by (cases "extract_unique_user_ids ev ps ?st0") auto
  have f1: "excel_written st1 = excel_written st" "cohort_calls st1 = cohort_calls st"
    "worker_outcomes st1 = worker_outcomes st" "has_client st1 = has_client st"
    using extract_frame(1,4,5,6) [of ev ps ?st0] x by simp_all
  show ?thesis
  proof (cases "ids = []")
    case True
    then show ?thesis using x f1 by (simp add: process_pack_def)
  next
    case False
    show ?thesis
    proof (cases "slices (batch_size cfg) ids")
      case (Inl err)
      then show ?thesis using x f1 False by (simp add: process_pack_def)
    next
      case (Inr batches)
      obtain res st2 where q: "query_batches cfg ev s e r batches ([], st1) = (res, st2)"
        by (cases "query_batches cfg ev s e r batches ([], st1)") auto
      from query_batches_frame [of cfg ev s e r batches "[]" st1] q f1
      have f2: "excel_written st2 = excel_written st" "cohort_calls st2 = cohort_calls st"
        "worker_outcomes st2 = worker_outcomes st" "has_client st2 = has_client st"
        by simp_all
      show ?thesis using x False Inr q f2
        by (cases res) (simp_all add: process_pack_def Let_def)
    qed
  qed
qed

end
